theory Spec2Isabelle
  imports Main "HOL-Library.Word"
begin

section \<open>Strings of the registration route\<close>

text \<open>
  The route \<^verbatim>\<open>src/app/api/register/route.ts\<close> works on JavaScript strings, which
  are sequences of 16-bit code units. The regular expressions of the route have no
  \<^verbatim>\<open>u\<close> flag, so they read code units too. A literal of the source is written
  \<open>js ''...''\<close> for its ASCII part; other code units are given by number.
\<close>

type_synonym unit16 = "16 word"
type_synonym jstring = "unit16 list"

definition js :: "string \<Rightarrow> jstring" where
  "js s = map of_char s"

definition SP :: unit16 where
  "SP = 0x20"

text \<open>
  The character class \<^verbatim>\<open>[\u0000-\u001F\u007F]\<close> of \<^verbatim>\<open>sanitizeText\<close>.
\<close>

definition is_control :: "unit16 \<Rightarrow> bool" where
  "is_control c = (c \<le> 0x1F \<or> c = 0x7F)"

text \<open>
  The class \<^verbatim>\<open>\s\<close> of an ECMAScript regular expression: WhiteSpace and
  LineTerminator, that is TAB, LF, VT, FF, CR, SPACE, NBSP, U+1680, U+2000 to U+200A,
  U+2028, U+2029, U+202F, U+205F, U+3000 and U+FEFF.
  \<^verbatim>\<open>String.prototype.trim\<close> strips exactly the same code units.
\<close>

definition is_space :: "unit16 \<Rightarrow> bool" where
  "is_space c = ((0x09 \<le> c \<and> c \<le> 0x0D) \<or> c = 0x20 \<or> c = 0xA0 \<or> c = 0x1680
     \<or> (0x2000 \<le> c \<and> c \<le> 0x200A) \<or> c = 0x2028 \<or> c = 0x2029 \<or> c = 0x202F
     \<or> c = 0x205F \<or> c = 0x3000 \<or> c = 0xFEFF)"

section \<open>sanitizeText\<close>

text \<open>\<^verbatim>\<open>value.replace(/[\u0000-\u001F\u007F]/g, "")\<close>\<close>

definition strip_controls :: "jstring \<Rightarrow> jstring" where
  "strip_controls s = filter (\<lambda>c. \<not> is_control c) s"

text \<open>
  \<^verbatim>\<open>.replace(/\s+/g, " ")\<close>: scanning from the left, every maximal run of
  \<^verbatim>\<open>\s\<close> code units (the quantifier is greedy) is replaced by one SPACE.
\<close>

function replace_ws_runs :: "jstring \<Rightarrow> jstring" where
  "replace_ws_runs [] = []"
| "replace_ws_runs (c # cs) =
     (if is_space c then SP # replace_ws_runs (dropWhile is_space cs)
      else c # replace_ws_runs cs)"
  by pat_completeness auto
termination
  by (relation "measure length") (auto simp: length_dropWhile_le less_Suc_eq_le)

text \<open>\<^verbatim>\<open>.trim()\<close>\<close>

definition trim :: "jstring \<Rightarrow> jstring" where
  "trim s = rev (dropWhile is_space (rev (dropWhile is_space s)))"

text \<open>
  \<^verbatim>\<open>s.slice(0, end)\<close> for an integral \<open>end\<close>: a negative \<open>end\<close> counts from the
  end of the string, and the result is clamped to the string.
\<close>

definition slice0 :: "jstring \<Rightarrow> int \<Rightarrow> jstring" where
  "slice0 s e =
     (let len = int (length s);
          to = (if e < 0 then max (len + e) 0 else min e len)
      in take (nat to) s)"

definition normalized :: "jstring \<Rightarrow> jstring" where
  "normalized v = trim (replace_ws_runs (strip_controls v))"

definition sanitizeText :: "jstring \<Rightarrow> int \<Rightarrow> jstring" where
  "sanitizeText v maxLength = slice0 (normalized v) maxLength"

text \<open>
  A string has a whitespace run when two neighbouring code units are both \<^verbatim>\<open>\s\<close>.
\<close>

fun ws_run :: "jstring \<Rightarrow> bool" where
  "ws_run (a # b # cs) = ((is_space a \<and> is_space b) \<or> ws_run (b # cs))"
| "ws_run _ = False"

section \<open>Errors\<close>

text \<open>
  \<^verbatim>\<open>class ClientError extends Error { status }\<close>; the constructor's default status
  is 400, which the callers below that pass no status write out.
\<close>

datatype client_error = ClientError (message: jstring) (status: nat)

definition bindE :: "'e + 'a \<Rightarrow> ('a \<Rightarrow> 'e + 'b) \<Rightarrow> 'e + 'b" where
  "bindE r k = (case r of Inl e \<Rightarrow> Inl e | Inr v \<Rightarrow> k v)"

section \<open>Rate limiter\<close>

definition RATE_LIMIT_WINDOW_MS :: int where
  "RATE_LIMIT_WINDOW_MS = 5 * 60 * 1000"

definition RATE_LIMIT_MAX_REQUESTS :: nat where
  "RATE_LIMIT_MAX_REQUESTS = 10"

text \<open>
  Timestamps are the integral milliseconds of \<^verbatim>\<open>Date.now()\<close> and hit counts are
  small naturals; both are far below \<open>2^53\<close>, where JavaScript numbers are exact.
\<close>

record RateLimitEntry =
  hits :: nat
  expiresAt :: int

type_synonym rate_store = "jstring \<rightharpoonup> RateLimitEntry"

definition too_many :: client_error where
  "too_many = ClientError (js ''Demasiadas solicitudes, intenta de nuevo en unos minutos.'') 429"

text \<open>
  \<^verbatim>\<open>enforceRateLimit\<close>, with the clock reading \<open>now\<close> and the module-level
  \<^verbatim>\<open>rateLimitStore\<close> passed in and returned. A throw leaves the store as it is.
\<close>

definition enforceRateLimit ::
  "int \<Rightarrow> jstring \<Rightarrow> rate_store \<Rightarrow> (client_error + unit) \<times> rate_store" where
  "enforceRateLimit now clientId store =
     (case store clientId of
        Some entry \<Rightarrow>
          if expiresAt entry > now then
            (if hits entry \<ge> RATE_LIMIT_MAX_REQUESTS then (Inl too_many, store)
             else (Inr (), store(clientId \<mapsto> entry\<lparr>hits := hits entry + 1\<rparr>)))
          else (Inr (), store(clientId \<mapsto>
                  \<lparr>hits = 1, expiresAt = now + RATE_LIMIT_WINDOW_MS\<rparr>))
      | None \<Rightarrow> (Inr (), store(clientId \<mapsto>
                  \<lparr>hits = 1, expiresAt = now + RATE_LIMIT_WINDOW_MS\<rparr>)))"

text \<open>
  A sequence of calls \<open>(now, clientId)\<close> to \<^verbatim>\<open>enforceRateLimit\<close>, from any
  clients, and the outcomes of the calls made by \<open>cid\<close>, in order.
\<close>

fun verdicts :: "jstring \<Rightarrow> (int \<times> jstring) list \<Rightarrow> rate_store \<Rightarrow> (client_error + unit) list" where
  "verdicts cid [] store = []"
| "verdicts cid ((now, c) # calls) store =
     (case enforceRateLimit now c store of
        (r, store') \<Rightarrow> (if c = cid then [r] else []) @ verdicts cid calls store')"

section \<open>Client identifier\<close>

text \<open>\<^verbatim>\<open>s.split(",")\<close>: never empty, \<^verbatim>\<open>"".split(",")\<close> is \<^verbatim>\<open>[""]\<close>.\<close>

fun split_comma :: "jstring \<Rightarrow> jstring list" where
  "split_comma [] = [[]]"
| "split_comma (c # cs) =
     (if c = 0x2C then [] # split_comma cs
      else (case split_comma cs of [] \<Rightarrow> [[c]] | p # ps \<Rightarrow> (c # p) # ps))"

text \<open>\<^verbatim>\<open>x || "unknown"\<close> for \<open>x\<close> a string, \<^verbatim>\<open>null\<close> or \<^verbatim>\<open>undefined\<close>.\<close>

definition or_unknown :: "jstring option \<Rightarrow> jstring" where
  "or_unknown x = (case x of None \<Rightarrow> js ''unknown'' | Some s \<Rightarrow> if s = [] then js ''unknown'' else s)"

text \<open>
  \<^verbatim>\<open>Headers.get\<close> is a lookup by (lower-case) header name that yields \<^verbatim>\<open>null\<close>
  for a header the request does not have.
\<close>

type_synonym headers = "jstring \<rightharpoonup> jstring"

definition getClientId :: "headers \<Rightarrow> jstring" where
  "getClientId hdrs =
     (case hdrs (js ''x-forwarded-for'') of
        Some forwardedFor \<Rightarrow>
          if forwardedFor \<noteq> [] then
            or_unknown (case split_comma forwardedFor of [] \<Rightarrow> None | x # _ \<Rightarrow> Some (trim x))
          else or_unknown (hdrs (js ''x-real-ip''))
      | None \<Rightarrow> or_unknown (hdrs (js ''x-real-ip'')))"

section \<open>Form data\<close>

text \<open>
  A \<^verbatim>\<open>FormData\<close> is an ordered list of entries; a value is a string or a file.
  \<^verbatim>\<open>get\<close> yields the first value of a name or \<^verbatim>\<open>null\<close>, \<^verbatim>\<open>getAll\<close> all of them.
\<close>

datatype FormDataEntryValue = Text jstring | File jstring

text \<open>
  A string value of a \<^verbatim>\<open>FormData\<close> is a scalar value string: when the entry is made,
  every surrogate code unit that is not part of a pair is replaced by U+FFFD. So in the
  forms the handler receives each high surrogate (U+D800 to U+DBFF) is followed by a low
  one (U+DC00 to U+DFFF) and each low surrogate follows a high one. \<^verbatim>\<open>slice\<close> can cut
  such a pair, so a string the handler returns need not have this form.
\<close>

definition is_high :: "unit16 \<Rightarrow> bool" where
  "is_high c = (0xD800 \<le> c \<and> c \<le> 0xDBFF)"

definition is_low :: "unit16 \<Rightarrow> bool" where
  "is_low c = (0xDC00 \<le> c \<and> c \<le> 0xDFFF)"

fun well_formed :: "jstring \<Rightarrow> bool" where
  "well_formed [] = True"
| "well_formed (c # cs) =
     (if is_high c then (case cs of [] \<Rightarrow> False | d # ds \<Rightarrow> is_low d \<and> well_formed ds)
      else \<not> is_low c \<and> well_formed cs)"

type_synonym FormData = "(jstring \<times> FormDataEntryValue) list"

fun fd_get :: "FormData \<Rightarrow> jstring \<Rightarrow> FormDataEntryValue option" where
  "fd_get [] key = None"
| "fd_get ((k, v) # es) key = (if k = key then Some v else fd_get es key)"

definition fd_getAll :: "FormData \<Rightarrow> jstring \<Rightarrow> FormDataEntryValue list" where
  "fd_getAll fd key = map snd (filter (\<lambda>e. fst e = key) fd)"

fun toString :: "FormDataEntryValue \<Rightarrow> jstring" where
  "toString (Text s) = s"
| "toString (File name) = js ''[object File]''"

text \<open>
  \<^verbatim>\<open>!value\<close> for a value that is not \<^verbatim>\<open>null\<close>: the empty string is falsy,
  a file is an object and truthy.
\<close>

fun falsy :: "FormDataEntryValue \<Rightarrow> bool" where
  "falsy (Text s) = (s = [])"
| "falsy (File name) = False"

section \<open>parseField\<close>

text \<open>
  The route's regular expressions have no \<^verbatim>\<open>g\<close> or \<^verbatim>\<open>y\<close> flag, so
  \<^verbatim>\<open>pattern.test\<close> has no state: a pattern is a predicate on strings.
\<close>

record options =
  maxLength :: "int option"
  pattern :: "(jstring \<Rightarrow> bool) option"
  label :: "jstring option"

text \<open>\<^verbatim>\<open>key.replace(/_/g, " ")\<close>\<close>

definition underscores_to_spaces :: "jstring \<Rightarrow> jstring" where
  "underscores_to_spaces key = map (\<lambda>c. if c = 0x5F then SP else c) key"

definition required_error :: "jstring \<Rightarrow> client_error" where
  "required_error lbl = ClientError (js ''El campo '' @ lbl @ js '' es obligatorio.'') 400"

definition format_error :: "jstring \<Rightarrow> client_error" where
  "format_error lbl =
     ClientError (lbl @ js '' tiene un formato inv'' @ [0xE1] @ js ''lido.'') 400"

definition label_of :: "jstring \<Rightarrow> options \<Rightarrow> jstring" where
  "label_of key opts =
     (case label opts of
        Some l \<Rightarrow> if l \<noteq> [] then l else underscores_to_spaces key
      | None \<Rightarrow> underscores_to_spaces key)"

definition parseField :: "FormData \<Rightarrow> jstring \<Rightarrow> options \<Rightarrow> client_error + jstring" where
  "parseField formData key opts =
     (let lbl = label_of key opts in
      case fd_get formData key of
        None \<Rightarrow> Inl (required_error lbl)
      | Some v \<Rightarrow>
          if falsy v then Inl (required_error lbl)
          else
            let sanitized = sanitizeText (toString v)
                              (case maxLength opts of Some m \<Rightarrow> m | None \<Rightarrow> 180)
            in if sanitized = [] then Inl (required_error lbl)
               else if (case pattern opts of Some p \<Rightarrow> \<not> p sanitized | None \<Rightarrow> False)
                    then Inl (format_error lbl)
               else Inr sanitized)"

section \<open>parseServices\<close>

definition ALLOWED_SERVICES :: "jstring set" where
  "ALLOWED_SERVICES = {js ''AM'', js ''PM'', js ''1/2''}"

text \<open>
  \<^verbatim>\<open>Array.from(new Set(xs))\<close>: the distinct elements of \<open>xs\<close> in the order of
  their first occurrence.
\<close>

fun from_set :: "'a list \<Rightarrow> 'a list" where
  "from_set [] = []"
| "from_set (x # xs) = x # from_set (filter (\<lambda>y. y \<noteq> x) xs)"

definition services_error :: client_error where
  "services_error =
     ClientError (js ''Selecciona al menos un servicio v'' @ [0xE1] @ js ''lido (AM, PM o 1/2).'') 400"

definition parseServices :: "FormData \<Rightarrow> client_error + jstring list" where
  "parseServices formData =
     (let services = filter (\<lambda>s. s \<noteq> [])
                       (map (\<lambda>x. sanitizeText (toString x) 10)
                          (fd_getAll formData (js ''service_options'')));
          unique = from_set services;
          invalid = filter (\<lambda>s. s \<notin> ALLOWED_SERVICES) unique
      in if length invalid > 0 \<or> length unique = 0 then Inl services_error
         else Inr unique)"

section \<open>The patterns of the route\<close>

text \<open>
  Each pattern is anchored at both ends and has no flag. Three of them are a character
  class repeated between \<open>lo\<close> and \<open>hi\<close> times: the string matches when its length
  is in that range and every code unit is in the class.
\<close>

definition class_repeat :: "(unit16 \<Rightarrow> bool) \<Rightarrow> nat \<Rightarrow> nat \<Rightarrow> jstring \<Rightarrow> bool" where
  "class_repeat cls lo hi s = (lo \<le> length s \<and> length s \<le> hi \<and> list_all cls s)"

definition is_digit :: "unit16 \<Rightarrow> bool" where
  "is_digit c = (0x30 \<le> c \<and> c \<le> 0x39)"

definition is_letter :: "unit16 \<Rightarrow> bool" where
  "is_letter c = ((0x41 \<le> c \<and> c \<le> 0x5A) \<or> (0x61 \<le> c \<and> c \<le> 0x7A))"

text \<open>\<^verbatim>\<open>/^[0-9+()\-.\s]{7,20}$/\<close>\<close>

definition phonePattern :: "jstring \<Rightarrow> bool" where
  "phonePattern = class_repeat
     (\<lambda>c. is_digit c \<or> c = 0x2B \<or> c = 0x28 \<or> c = 0x29 \<or> c = 0x2D \<or> c = 0x2E \<or> is_space c) 7 20"

text \<open>
  The pattern of \<^verbatim>\<open>grade\<close>: the class of ASCII letters, digits, the two ordinal
  marks U+00B0 and U+00BA, \<^verbatim>\<open>\s\<close> and the hyphen, repeated \<^verbatim>\<open>{1,15}\<close> times
  between \<^verbatim>\<open>^\<close> and \<^verbatim>\<open>$\<close>.
\<close>

definition gradePattern :: "jstring \<Rightarrow> bool" where
  "gradePattern = class_repeat
     (\<lambda>c. is_letter c \<or> is_digit c \<or> c = 0xB0 \<or> c = 0xBA \<or> is_space c \<or> c = 0x2D) 1 15"

text \<open>\<^verbatim>\<open>/^[A-Za-z0-9\-.]{5,30}$/\<close>\<close>

definition idPattern :: "jstring \<Rightarrow> bool" where
  "idPattern = class_repeat (\<lambda>c. is_letter c \<or> is_digit c \<or> c = 0x2D \<or> c = 0x2E) 5 30"

text \<open>
  \<^verbatim>\<open>/^[^\s@]+@[^\s@]+\.[^\s@]+$/\<close>: the class \<^verbatim>\<open>[^\s@]\<close> excludes \<^verbatim>\<open>@\<close>, so
  the \<^verbatim>\<open>@\<close> of the pattern is the only one of the string. Before it comes a
  non-empty part, after it a part \<open>d\<close> with a dot that is neither its first nor its last
  code unit; no code unit of either part is \<^verbatim>\<open>\s\<close> or \<^verbatim>\<open>@\<close>.
\<close>

definition emailPattern :: "jstring \<Rightarrow> bool" where
  "emailPattern s =
     (let plain = (\<lambda>c. \<not> is_space c \<and> c \<noteq> 0x40);
          local_part = takeWhile (\<lambda>c. c \<noteq> 0x40) s;
          rest = dropWhile (\<lambda>c. c \<noteq> 0x40) s
      in local_part \<noteq> [] \<and> list_all plain local_part \<and> rest \<noteq> [] \<and>
         list_all plain (tl rest) \<and> 0x2E \<in> set (butlast (tl (tl rest))))"

section \<open>POST\<close>

record submission =
  student_name :: jstring
  grade :: jstring
  service_options :: "jstring list"
  address :: jstring
  municipio :: jstring
  sector :: jstring
  urbanizacion :: jstring
  bloque :: jstring
  father_name :: jstring
  father_phone :: jstring
  father_office_phone :: jstring
  father_email :: jstring
  mother_name :: jstring
  mother_phone :: jstring
  mother_office_phone :: jstring
  mother_email :: jstring
  other_guardian :: jstring
  other_guardian_phone :: jstring
  responsible_id :: jstring
  observaciones :: jstring

text \<open>
  Lines 108 to 179 of the route: the nineteen \<^verbatim>\<open>parseField\<close> calls, then
  \<^verbatim>\<open>parseServices\<close>, each after the one before it has returned; the first throw
  ends the sequence. The result is the object literal handed to \<^verbatim>\<open>insert\<close>.
\<close>

definition parseSubmission :: "FormData \<Rightarrow> client_error + submission" where
  "parseSubmission formData =
     bindE (parseField formData (js ''student_name'')
              \<lparr>maxLength = Some 120, pattern = None, label = Some (js ''nombre del estudiante'')\<rparr>) (\<lambda>v_student_name.
     bindE (parseField formData (js ''grade'')
              \<lparr>maxLength = Some 15, pattern = Some gradePattern, label = Some (js ''grado a cursar'')\<rparr>) (\<lambda>v_grade.
     bindE (parseField formData (js ''address'')
              \<lparr>maxLength = Some 150, pattern = None, label = Some (js ''direcci'' @ [0xF3] @ js ''n'')\<rparr>) (\<lambda>v_address.
     bindE (parseField formData (js ''municipio'')
              \<lparr>maxLength = Some 100, pattern = None, label = None\<rparr>) (\<lambda>v_municipio.
     bindE (parseField formData (js ''sector'')
              \<lparr>maxLength = Some 100, pattern = None, label = None\<rparr>) (\<lambda>v_sector.
     bindE (parseField formData (js ''urbanizacion'')
              \<lparr>maxLength = Some 100, pattern = None, label = None\<rparr>) (\<lambda>v_urbanizacion.
     bindE (parseField formData (js ''bloque'')
              \<lparr>maxLength = Some 50, pattern = None, label = Some (js ''bloque o interior'')\<rparr>) (\<lambda>v_bloque.
     bindE (parseField formData (js ''father_name'')
              \<lparr>maxLength = Some 120, pattern = None, label = Some (js ''nombre del padre'')\<rparr>) (\<lambda>v_father_name.
     bindE (parseField formData (js ''father_phone'')
              \<lparr>maxLength = Some 20, pattern = Some phonePattern, label = Some (js ''celular del padre'')\<rparr>) (\<lambda>v_father_phone.
     bindE (parseField formData (js ''father_office_phone'')
              \<lparr>maxLength = Some 20, pattern = Some phonePattern, label = Some (js ''tel'' @ [0xE9] @ js ''fono de oficina (padre)'')\<rparr>) (\<lambda>v_father_office_phone.
     bindE (parseField formData (js ''father_email'')
              \<lparr>maxLength = Some 120, pattern = Some emailPattern, label = Some (js ''email del padre'')\<rparr>) (\<lambda>v_father_email.
     bindE (parseField formData (js ''mother_name'')
              \<lparr>maxLength = Some 120, pattern = None, label = Some (js ''nombre de la madre'')\<rparr>) (\<lambda>v_mother_name.
     bindE (parseField formData (js ''mother_phone'')
              \<lparr>maxLength = Some 20, pattern = Some phonePattern, label = Some (js ''celular de la madre'')\<rparr>) (\<lambda>v_mother_phone.
     bindE (parseField formData (js ''mother_office_phone'')
              \<lparr>maxLength = Some 20, pattern = Some phonePattern, label = Some (js ''tel'' @ [0xE9] @ js ''fono de oficina (madre)'')\<rparr>) (\<lambda>v_mother_office_phone.
     bindE (parseField formData (js ''mother_email'')
              \<lparr>maxLength = Some 120, pattern = Some emailPattern, label = Some (js ''email de la madre'')\<rparr>) (\<lambda>v_mother_email.
     bindE (parseField formData (js ''other_guardian'')
              \<lparr>maxLength = Some 120, pattern = None, label = Some (js ''otro acudiente'')\<rparr>) (\<lambda>v_other_guardian.
     bindE (parseField formData (js ''other_guardian_phone'')
              \<lparr>maxLength = Some 20, pattern = Some phonePattern, label = Some (js ''celular del otro acudiente'')\<rparr>) (\<lambda>v_other_guardian_phone.
     bindE (parseField formData (js ''responsible_id'')
              \<lparr>maxLength = Some 30, pattern = Some idPattern, label = Some (js ''c'' @ [0xE9] @ js ''dula del responsable'')\<rparr>) (\<lambda>v_responsible_id.
     bindE (parseField formData (js ''observaciones'')
              \<lparr>maxLength = Some 500, pattern = None, label = None\<rparr>) (\<lambda>v_observaciones.
     bindE (parseServices formData) (\<lambda>v_service_options.
     Inr \<lparr>student_name = v_student_name,
          grade = v_grade,
          service_options = v_service_options,
          address = v_address,
          municipio = v_municipio,
          sector = v_sector,
          urbanizacion = v_urbanizacion,
          bloque = v_bloque,
          father_name = v_father_name,
          father_phone = v_father_phone,
          father_office_phone = v_father_office_phone,
          father_email = v_father_email,
          mother_name = v_mother_name,
          mother_phone = v_mother_phone,
          mother_office_phone = v_mother_office_phone,
          mother_email = v_mother_email,
          other_guardian = v_other_guardian,
          other_guardian_phone = v_other_guardian_phone,
          responsible_id = v_responsible_id,
          observaciones = v_observaciones\<rparr>))))))))))))))))))))"

text \<open>
  The same fields and options as a table, in the order in which the handler makes the
  \<^verbatim>\<open>parseField\<close> calls.
\<close>

definition field_order :: "(jstring \<times> options) list" where
  "field_order =
     [(js ''student_name'',
        \<lparr>maxLength = Some 120, pattern = None, label = Some (js ''nombre del estudiante'')\<rparr>),
      (js ''grade'',
        \<lparr>maxLength = Some 15, pattern = Some gradePattern, label = Some (js ''grado a cursar'')\<rparr>),
      (js ''address'',
        \<lparr>maxLength = Some 150, pattern = None, label = Some (js ''direcci'' @ [0xF3] @ js ''n'')\<rparr>),
      (js ''municipio'',
        \<lparr>maxLength = Some 100, pattern = None, label = None\<rparr>),
      (js ''sector'',
        \<lparr>maxLength = Some 100, pattern = None, label = None\<rparr>),
      (js ''urbanizacion'',
        \<lparr>maxLength = Some 100, pattern = None, label = None\<rparr>),
      (js ''bloque'',
        \<lparr>maxLength = Some 50, pattern = None, label = Some (js ''bloque o interior'')\<rparr>),
      (js ''father_name'',
        \<lparr>maxLength = Some 120, pattern = None, label = Some (js ''nombre del padre'')\<rparr>),
      (js ''father_phone'',
        \<lparr>maxLength = Some 20, pattern = Some phonePattern, label = Some (js ''celular del padre'')\<rparr>),
      (js ''father_office_phone'',
        \<lparr>maxLength = Some 20, pattern = Some phonePattern, label = Some (js ''tel'' @ [0xE9] @ js ''fono de oficina (padre)'')\<rparr>),
      (js ''father_email'',
        \<lparr>maxLength = Some 120, pattern = Some emailPattern, label = Some (js ''email del padre'')\<rparr>),
      (js ''mother_name'',
        \<lparr>maxLength = Some 120, pattern = None, label = Some (js ''nombre de la madre'')\<rparr>),
      (js ''mother_phone'',
        \<lparr>maxLength = Some 20, pattern = Some phonePattern, label = Some (js ''celular de la madre'')\<rparr>),
      (js ''mother_office_phone'',
        \<lparr>maxLength = Some 20, pattern = Some phonePattern, label = Some (js ''tel'' @ [0xE9] @ js ''fono de oficina (madre)'')\<rparr>),
      (js ''mother_email'',
        \<lparr>maxLength = Some 120, pattern = Some emailPattern, label = Some (js ''email de la madre'')\<rparr>),
      (js ''other_guardian'',
        \<lparr>maxLength = Some 120, pattern = None, label = Some (js ''otro acudiente'')\<rparr>),
      (js ''other_guardian_phone'',
        \<lparr>maxLength = Some 20, pattern = Some phonePattern, label = Some (js ''celular del otro acudiente'')\<rparr>),
      (js ''responsible_id'',
        \<lparr>maxLength = Some 30, pattern = Some idPattern, label = Some (js ''c'' @ [0xE9] @ js ''dula del responsable'')\<rparr>),
      (js ''observaciones'',
        \<lparr>maxLength = Some 500, pattern = None, label = None\<rparr>)]"

text \<open>
  The same fields once more, in the order in which the table of section 4.2 of the
  specification lists them, row by row; section 4.5 of the specification names this
  order as the one of the validation. The options of each field are those of the handler.
\<close>

definition spec_table_keys :: "jstring list" where
  "spec_table_keys =
     [js ''student_name'', js ''father_name'', js ''mother_name'', js ''other_guardian'',
      js ''father_email'', js ''mother_email'', js ''grade'', js ''address'', js ''municipio'',
      js ''sector'', js ''urbanizacion'', js ''bloque'', js ''father_phone'',
      js ''father_office_phone'', js ''mother_phone'', js ''mother_office_phone'',
      js ''other_guardian_phone'', js ''responsible_id'', js ''observaciones'']"

definition spec_table_order :: "(jstring \<times> options) list" where
  "spec_table_order =
     concat (map (\<lambda>k. filter (\<lambda>e. fst e = k) field_order) spec_table_keys)"

text \<open>
  What the handler can catch: a \<^verbatim>\<open>ClientError\<close>, the plain \<^verbatim>\<open>Error\<close> it throws
  itself after a failed insert, the rejection of \<^verbatim>\<open>req.formData()\<close> on a body that
  is not a form, and a rejection of the store's promise with the store's own value.
\<close>

datatype 'e thrown = Client client_error | PlainError jstring | BodyError | StoreRejected 'e

text \<open>
  The store is a collaborator outside the route: \<^verbatim>\<open>insert\<close> resolves to an object
  whose \<^verbatim>\<open>error\<close> is \<^verbatim>\<open>null\<close> or the store's error, or it rejects.
\<close>

datatype 'e insert_outcome = Resolved "'e option" | Rejected 'e

datatype 'e log_entry = SupabaseInsertError 'e | ApiError "'e thrown"

text \<open>
  The state the handler works on: the rate limiter's map, the records handed to the
  store's \<^verbatim>\<open>insert\<close> so far, and the lines written with \<^verbatim>\<open>console.error\<close>.
\<close>

record 'e world =
  rateLimitStore :: rate_store
  inserted :: "submission list"
  console :: "'e log_entry list"

record request =
  req_headers :: headers
  req_formData :: "FormData option"

text \<open>
  The JSON body and the status of a \<^verbatim>\<open>NextResponse.json\<close>, whose default status
  is 200.
\<close>

record response =
  http_status :: nat
  body_success :: bool
  body_message :: "jstring option"
  body_error :: "jstring option"

definition internal_error_message :: jstring where
  "internal_error_message = js ''Error interno, intenta m'' @ [0xE1] @ js ''s tarde.''"

text \<open>The \<^verbatim>\<open>catch\<close> block.\<close>

definition catch_block :: "'e thrown \<Rightarrow> 'e world \<Rightarrow> response \<times> 'e world" where
  "catch_block err w =
     (let w' = w\<lparr>console := console w @ [ApiError err]\<rparr>;
          st = (case err of Client e \<Rightarrow> status e | _ \<Rightarrow> 500);
          msg = (case err of Client e \<Rightarrow> message e | _ \<Rightarrow> internal_error_message)
      in (\<lparr>http_status = st, body_success = False, body_message = None,
           body_error = Some msg\<rparr>, w'))"

definition POST ::
  "int \<Rightarrow> (submission \<Rightarrow> 'e insert_outcome) \<Rightarrow> request \<Rightarrow> 'e world \<Rightarrow> response \<times> 'e world" where
  "POST now store_insert req w =
     (case enforceRateLimit now (getClientId (req_headers req)) (rateLimitStore w) of
        (Inl e, store') \<Rightarrow> catch_block (Client e) (w\<lparr>rateLimitStore := store'\<rparr>)
      | (Inr _, store') \<Rightarrow>
          let w1 = w\<lparr>rateLimitStore := store'\<rparr> in
          (case req_formData req of
             None \<Rightarrow> catch_block BodyError w1
           | Some formData \<Rightarrow>
               (case parseSubmission formData of
                  Inl e \<Rightarrow> catch_block (Client e) w1
                | Inr r \<Rightarrow>
                    let w2 = w1\<lparr>inserted := inserted w1 @ [r]\<rparr> in
                    (case store_insert r of
                       Rejected d \<Rightarrow> catch_block (StoreRejected d) w2
                     | Resolved (Some insertError) \<Rightarrow>
                         catch_block (PlainError (js ''No se pudo guardar el formulario.''))
                           (w2\<lparr>console := console w2 @ [SupabaseInsertError insertError]\<rparr>)
                     | Resolved None \<Rightarrow>
                         (\<lparr>http_status = 200, body_success = True,
                           body_message = Some (js ''Formulario enviado correctamente''),
                           body_error = None\<rparr>, w2)))))"

text \<open>A complete submission with one service option, to run the handler on.\<close>

definition example_form :: FormData where
  "example_form =
     [(js ''student_name'', Text (js ''Ana Maria  Perez'')),
      (js ''grade'', Text (js ''5'' @ [0xB0])),
      (js ''address'', Text (js ''Calle 10 # 20-30'')),
      (js ''municipio'', Text (js ''Medellin'')),
      (js ''sector'', Text (js ''Centro'')),
      (js ''urbanizacion'', Text (js ''Los Pinos'')),
      (js ''bloque'', Text (js ''Bloque 2'')),
      (js ''father_name'', Text (js ''Juan Perez'')),
      (js ''father_phone'', Text (js ''+57 300 1234567'')),
      (js ''father_office_phone'', Text (js ''(604) 123-4567'')),
      (js ''father_email'', Text (js ''juan@example.com'')),
      (js ''mother_name'', Text (js ''Maria Gomez'')),
      (js ''mother_phone'', Text (js ''3001234567'')),
      (js ''mother_office_phone'', Text (js ''604.123.4567'')),
      (js ''mother_email'', Text (js ''maria@example.com'')),
      (js ''other_guardian'', Text (js ''Luis Gomez'')),
      (js ''other_guardian_phone'', Text (js ''3109876543'')),
      (js ''responsible_id'', Text (js ''CC-1234567.8'')),
      (js ''observaciones'', Text (js ''Ninguna'')),
      (js ''service_options'', Text (js ''AM''))]"

text \<open>The error of the first result that is an error, if there is one.\<close>

fun first_failure :: "('e + 'a) list \<Rightarrow> 'e option" where
  "first_failure [] = None"
| "first_failure (Inl e # rs) = Some e"
| "first_failure (Inr v # rs) = first_failure rs"

section \<open>Properties of the sanitizer\<close>

lemma is_space_SP: "is_space SP"
  by (simp add: is_space_def SP_def)

lemma not_control_SP: "\<not> is_control SP"
  by (simp add: is_control_def SP_def)

lemma rwr_Nil_iff: "replace_ws_runs s = [] \<longleftrightarrow> s = []"
  by (cases s) auto

lemma rwr_hd: "s \<noteq> [] \<Longrightarrow> \<not> is_space (hd s) \<Longrightarrow> hd (replace_ws_runs s) = hd s"
  by (cases s) auto

lemma rwr_set: "set (replace_ws_runs s) \<subseteq> insert SP (set s)"
proof (induction s rule: replace_ws_runs.induct)
  case 1
  show ?case by simp
next
  case (2 c cs)
  show ?case
  proof (cases "is_space c")
    case True
    have "set (dropWhile is_space cs) \<subseteq> set cs"
      by (rule set_dropWhileD [THEN subsetI])
    with 2(1) [OF True] True show ?thesis by auto
  next
    case False
    with 2(2) show ?thesis by auto
  qed
qed

lemma in_dropWhile: "c \<in> set cs \<Longrightarrow> \<not> P c \<Longrightarrow> c \<in> set (dropWhile P cs)"
  by (induction cs) auto

lemma rwr_nonspace: "c \<in> set s \<Longrightarrow> \<not> is_space c \<Longrightarrow> c \<in> set (replace_ws_runs s)"
proof (induction s rule: replace_ws_runs.induct)
  case 1
  then show ?case by simp
next
  case (2 d cs)
  show ?case
  proof (cases "is_space d")
    case True
    with 2(3,4) have "c \<in> set cs" by auto
    then have "c \<in> set (dropWhile is_space cs)"
      using 2(4) by (rule in_dropWhile)
    with 2(1) [OF True] 2(4) True show ?thesis by simp
  next
    case False
    with 2(2,3,4) show ?thesis by auto
  qed
qed

lemma rwr_space_is_SP: "c \<in> set (replace_ws_runs s) \<Longrightarrow> is_space c \<Longrightarrow> c = SP"
proof (induction s rule: replace_ws_runs.induct)
  case 1
  then show ?case by simp
next
  case (2 d cs)
  then show ?case by (cases "is_space d") auto
qed

lemma ws_run_Cons: "ws_run (a # xs) = ((is_space a \<and> xs \<noteq> [] \<and> is_space (hd xs)) \<or> ws_run xs)"
  by (cases xs) auto

lemma rwr_no_ws_run: "\<not> ws_run (replace_ws_runs s)"
proof (induction s rule: replace_ws_runs.induct)
  case 1
  show ?case by simp
next
  case (2 c cs)
  show ?case
  proof (cases "is_space c")
    case True
    let ?d = "dropWhile is_space cs"
    have "replace_ws_runs ?d \<noteq> [] \<Longrightarrow> \<not> is_space (hd (replace_ws_runs ?d))"
      by (simp add: rwr_Nil_iff rwr_hd hd_dropWhile)
    with 2(1) [OF True] True show ?thesis
      by (auto simp: ws_run_Cons)
  next
    case False
    with 2(2) show ?thesis by (simp add: ws_run_Cons)
  qed
qed

lemma ws_run_appendI1: "ws_run xs \<Longrightarrow> ws_run (xs @ ys)"
  by (induction xs rule: ws_run.induct) auto

lemma ws_run_appendI2: "ws_run ys \<Longrightarrow> ws_run (xs @ ys)"
  by (induction xs) (auto simp: ws_run_Cons)

lemma ws_run_index:
  "ws_run xs \<longleftrightarrow> (\<exists>i. Suc i < length xs \<and> is_space (xs ! i) \<and> is_space (xs ! Suc i))"
proof (induction xs rule: ws_run.induct)
  case (1 a b cs)
  show ?case
  proof
    assume "ws_run (a # b # cs)"
    then consider "is_space a \<and> is_space b" | "ws_run (b # cs)" by auto
    then show "\<exists>i. Suc i < length (a # b # cs) \<and> is_space ((a # b # cs) ! i) \<and> is_space ((a # b # cs) ! Suc i)"
    proof cases
      case 1
      then show ?thesis by (intro exI [of _ 0]) simp
    next
      case 2
      with 1 obtain i where "Suc i < length (b # cs)" "is_space ((b # cs) ! i)" "is_space ((b # cs) ! Suc i)"
        by blast
      then show ?thesis by (intro exI [of _ "Suc i"]) simp
    qed
  next
    assume "\<exists>i. Suc i < length (a # b # cs) \<and> is_space ((a # b # cs) ! i) \<and> is_space ((a # b # cs) ! Suc i)"
    then obtain i where i: "Suc i < length (a # b # cs)" "is_space ((a # b # cs) ! i)" "is_space ((a # b # cs) ! Suc i)"
      by blast
    show "ws_run (a # b # cs)"
    proof (cases i)
      case 0
      with i show ?thesis by simp
    next
      case (Suc j)
      with i have "Suc j < length (b # cs) \<and> is_space ((b # cs) ! j) \<and> is_space ((b # cs) ! Suc j)"
        by simp
      with 1 have "ws_run (b # cs)" by blast
      then show ?thesis by simp
    qed
  qed
qed simp_all

lemma trim_infix: "\<exists>a b. s = a @ trim s @ b"
proof -
  let ?t = "dropWhile is_space s"
  have "s = takeWhile is_space s @ ?t" by simp
  moreover have "?t = trim s @ rev (takeWhile is_space (rev ?t))"
  proof -
    have "rev (takeWhile is_space (rev ?t) @ dropWhile is_space (rev ?t)) = ?t"
      by (simp only: takeWhile_dropWhile_id rev_rev_ident)
    then show ?thesis by (simp only: trim_def rev_append)
  qed
  ultimately have "s = takeWhile is_space s @ trim s @ rev (takeWhile is_space (rev ?t))"
    by simp
  then show ?thesis by blast
qed

lemma set_trim: "set (trim s) \<subseteq> set s"
  using trim_infix [of s] by (metis Un_iff set_append subsetI)

lemma trim_no_ws_run: "\<not> ws_run s \<Longrightarrow> \<not> ws_run (trim s)"
  using trim_infix [of s] by (metis ws_run_appendI1 ws_run_appendI2)

lemma trim_Nil_iff: "trim s = [] \<longleftrightarrow> (\<forall>c\<in>set s. is_space c)"
proof
  assume "trim s = []"
  then have "\<forall>c\<in>set (dropWhile is_space s). is_space c"
    by (simp add: trim_def dropWhile_eq_Nil_conv)
  then have "dropWhile is_space s = []"
    using hd_dropWhile [of is_space s] by (metis hd_in_set)
  then show "\<forall>c\<in>set s. is_space c"
    by (simp add: dropWhile_eq_Nil_conv)
next
  assume "\<forall>c\<in>set s. is_space c"
  then have "dropWhile is_space s = []" by simp
  then show "trim s = []" by (simp only: trim_def rev.simps dropWhile.simps)
qed

lemma trim_ends:
  assumes "trim s \<noteq> []"
  shows "\<not> is_space (hd (trim s))" and "\<not> is_space (last (trim s))"
proof -
  let ?t = "dropWhile is_space s"
  let ?u = "dropWhile is_space (rev ?t)"
  from assms have u: "?u \<noteq> []" by (simp add: trim_def)
  have t: "?t \<noteq> []"
  proof
    assume "?t = []"
    then have "?u = []" by (simp only: rev.simps dropWhile.simps)
    with u show False by contradiction
  qed
  have "last (trim s) = hd ?u" using u by (simp add: trim_def last_rev)
  then show "\<not> is_space (last (trim s))" using hd_dropWhile [OF u] by simp
  have nl: "\<not> is_space (last (rev ?t))" using t hd_dropWhile [OF t] by (simp add: last_rev)
  have "last ?u = last (rev ?t)"
    using u by (metis takeWhile_dropWhile_id last_appendR)
  moreover have "hd (trim s) = last ?u" using u by (simp add: trim_def hd_rev)
  ultimately show "\<not> is_space (hd (trim s))" using nl by simp
qed

lemma trim_fix: "v = [] \<or> (\<not> is_space (hd v) \<and> \<not> is_space (last v)) \<Longrightarrow> trim v = v"
proof (cases v)
  case Nil
  then show ?thesis by (simp add: trim_def)
next
  case (Cons a w)
  assume "v = [] \<or> (\<not> is_space (hd v) \<and> \<not> is_space (last v))"
  with Cons have a: "\<not> is_space a" and l: "\<not> is_space (last v)" by auto
  from a Cons have "dropWhile is_space v = v" by simp
  moreover from l Cons have "dropWhile is_space (rev v) = rev v"
    by (cases "rev v") (auto simp: last_rev hd_rev [symmetric])
  ultimately show ?thesis by (simp add: trim_def)
qed

lemma rwr_fix:
  "\<forall>c\<in>set v. is_space c \<longrightarrow> c = SP \<Longrightarrow> \<not> ws_run v \<Longrightarrow> replace_ws_runs v = v"
proof (induction v rule: replace_ws_runs.induct)
  case 1
  show ?case by simp
next
  case (2 c cs)
  show ?case
  proof (cases "is_space c")
    case True
    from 2(4) True have "cs = [] \<or> \<not> is_space (hd cs)" by (auto simp: ws_run_Cons)
    then have d: "dropWhile is_space cs = cs" by (cases cs) auto
    from 2(4) have "\<not> ws_run cs" by (simp add: ws_run_Cons)
    with 2(1) [OF True] 2(3) d have "replace_ws_runs cs = cs" by simp
    with True d 2(3) show ?thesis by simp
  next
    case False
    from 2(4) have "\<not> ws_run cs" by (simp add: ws_run_Cons)
    with 2(2) [OF False] 2(3) False show ?thesis by simp
  qed
qed

lemma strip_fix: "\<forall>c\<in>set v. \<not> is_control c \<Longrightarrow> strip_controls v = v"
  by (simp add: strip_controls_def)

lemma normalized_no_control: "c \<in> set (normalized s) \<Longrightarrow> \<not> is_control c"
proof -
  assume "c \<in> set (normalized s)"
  then have "c \<in> set (replace_ws_runs (strip_controls s))"
    using set_trim by (auto simp: normalized_def)
  then have "c = SP \<or> c \<in> set (strip_controls s)" using rwr_set by auto
  then show ?thesis by (auto simp: not_control_SP strip_controls_def)
qed

lemma normalized_space_is_SP: "c \<in> set (normalized s) \<Longrightarrow> is_space c \<Longrightarrow> c = SP"
  using set_trim rwr_space_is_SP by (auto simp: normalized_def)

lemma normalized_no_ws_run: "\<not> ws_run (normalized s)"
  by (simp add: normalized_def trim_no_ws_run rwr_no_ws_run)

lemma normalized_ends:
  "normalized s \<noteq> [] \<Longrightarrow> \<not> is_space (hd (normalized s)) \<and> \<not> is_space (last (normalized s))"
  by (simp add: normalized_def trim_ends)

lemma normalized_Nil_iff: "normalized s = [] \<longleftrightarrow> (\<forall>c\<in>set s. is_control c \<or> is_space c)"
proof -
  have "(\<forall>c\<in>set (replace_ws_runs (strip_controls s)). is_space c)
      \<longleftrightarrow> (\<forall>c\<in>set (strip_controls s). is_space c)"
    using rwr_set [of "strip_controls s"] rwr_nonspace [of _ "strip_controls s"] is_space_SP
    by blast
  then show ?thesis
    by (auto simp: normalized_def trim_Nil_iff strip_controls_def)
qed

lemma slice0_take: "0 \<le> n \<Longrightarrow> slice0 s n = take (nat n) s"
  by (simp add: slice0_def Let_def min_def)

lemma set_slice0: "set (slice0 s n) \<subseteq> set s"
  by (simp add: slice0_def Let_def set_take_subset)

lemma slice0_prefix: "\<exists>b. s = slice0 s n @ b"
  by (metis slice0_def append_take_drop_id)

lemma length_slice0: "0 \<le> n \<Longrightarrow> int (length (slice0 s n)) \<le> n"
  by (simp add: slice0_take)

lemma slice0_Nil_iff: "0 < n \<Longrightarrow> slice0 s n = [] \<longleftrightarrow> s = []"
  by (simp add: slice0_take)

lemma slice0_fits: "int (length s) \<le> n \<Longrightarrow> slice0 s n = s"
  by (simp add: slice0_def Let_def)

text \<open>
  Claim C2. For every input string and every positive maximum length, the output of
  \<^verbatim>\<open>sanitizeText\<close> has no C0 control character and no DEL, has no two neighbouring
  whitespace characters, and is at most the maximum long.
\<close>

theorem sanitizeText_clean:
  assumes "0 < n"
  shows "(\<forall>c\<in>set (sanitizeText s n). \<not> is_control c) \<and>
         (\<forall>i. Suc i < length (sanitizeText s n) \<longrightarrow>
              \<not> (is_space (sanitizeText s n ! i) \<and> is_space (sanitizeText s n ! Suc i))) \<and>
         int (length (sanitizeText s n)) \<le> n"
proof -
  let ?out = "sanitizeText s n"
  have "\<forall>c\<in>set ?out. \<not> is_control c"
    using set_slice0 [of "normalized s" n] normalized_no_control [of _ s]
    by (auto simp: sanitizeText_def)
  moreover have "\<not> ws_run ?out"
  proof -
    obtain b where "normalized s = ?out @ b"
      using slice0_prefix [of "normalized s" n] by (auto simp: sanitizeText_def)
    then show ?thesis
      using normalized_no_ws_run [of s] ws_run_appendI1 [of ?out b] by auto
  qed
  moreover have "int (length ?out) \<le> n"
    using assms by (simp add: sanitizeText_def length_slice0)
  ultimately show ?thesis
    by (simp add: ws_run_index)
qed

theorem sanitizeText_clean_witness:
  "(0::int) < 2 \<and> sanitizeText (js '' a  b '') 2 = [0x61, 0x20] \<and>
   \<not> is_control (sanitizeText (js '' a  b '') 2 ! 1) \<and>
   \<not> (is_space (sanitizeText (js '' a  b '') 2 ! 0) \<and>
      is_space (sanitizeText (js '' a  b '') 2 ! 1)) \<and>
   int (length (sanitizeText (js '' a  b '') 2)) \<le> 2"
proof -
  have e: "sanitizeText (js '' a  b '') 2 = [0x61, 0x20]"
    by code_simp
  have "Suc 0 < length (sanitizeText (js '' a  b '') 2)" "1 < length (sanitizeText (js '' a  b '') 2)"
    by (simp_all add: e)
  then show ?thesis
    using sanitizeText_clean [of 2 "js '' a  b ''"] e by (auto simp del: One_nat_def)
qed

section \<open>Properties of the rate limiter\<close>

lemma enforce_frame: "c \<noteq> cid \<Longrightarrow> snd (enforceRateLimit t c st) cid = st cid"
  by (simp add: enforceRateLimit_def split: option.splits)

lemma enforce_stale:
  "st cid = None \<or> (\<exists>e. st cid = Some e \<and> expiresAt e \<le> now) \<Longrightarrow>
   enforceRateLimit now cid st =
     (Inr (), st(cid \<mapsto> \<lparr>hits = 1, expiresAt = now + RATE_LIMIT_WINDOW_MS\<rparr>))"
  by (auto simp: enforceRateLimit_def split: option.splits)

lemma enforce_reject_iff:
  "isl (fst (enforceRateLimit now cid st)) \<longleftrightarrow>
   (\<exists>e. st cid = Some e \<and> now < expiresAt e \<and> RATE_LIMIT_MAX_REQUESTS \<le> hits e)"
  by (auto simp: enforceRateLimit_def split: option.splits)

lemma enforce_reject:
  "fst (enforceRateLimit now cid st) = Inl err \<Longrightarrow>
   enforceRateLimit now cid st = (Inl too_many, st)"
  by (auto simp: enforceRateLimit_def split: option.splits if_splits)

lemma verdicts_in_window:
  "st cid = Some e \<Longrightarrow> \<forall>x\<in>set calls. snd x = cid \<longrightarrow> fst x < expiresAt e \<Longrightarrow>
   verdicts cid calls st =
     map (\<lambda>k. if hits e + k < RATE_LIMIT_MAX_REQUESTS then Inr () else Inl too_many)
       [0..<length (filter (\<lambda>x. snd x = cid) calls)]"
proof (induction calls arbitrary: st e)
  case Nil
  show ?case by simp
next
  case (Cons x calls)
  obtain t c where x: "x = (t, c)" by (cases x)
  show ?case
  proof (cases "c = cid")
    case False
    then have "snd (enforceRateLimit t c st) cid = Some e"
      using Cons.prems(1) by (simp add: enforce_frame)
    then have "verdicts cid calls (snd (enforceRateLimit t c st)) =
       map (\<lambda>k. if hits e + k < RATE_LIMIT_MAX_REQUESTS then Inr () else Inl too_many)
         [0..<length (filter (\<lambda>x. snd x = cid) calls)]"
      using Cons.prems(2) by (intro Cons.IH) auto
    with False x show ?thesis by (simp add: split_beta)
  next
    case True
    with Cons.prems(2) x have t: "t < expiresAt e" by simp
    let ?n = "length (filter (\<lambda>x. snd x = cid) calls)"
    have upt: "[0..<Suc ?n] = 0 # map Suc [0..<?n]"
      by (simp add: upt_conv_Cons map_Suc_upt del: upt_Suc)
    show ?thesis
    proof (cases "RATE_LIMIT_MAX_REQUESTS \<le> hits e")
      case full: True
      then have r: "enforceRateLimit t cid st = (Inl too_many, st)"
        using Cons.prems(1) t by (simp add: enforceRateLimit_def)
      have "verdicts cid calls st =
         map (\<lambda>k. if hits e + k < RATE_LIMIT_MAX_REQUESTS then Inr () else Inl too_many) [0..<?n]"
        using Cons.prems by (intro Cons.IH) auto
      with full r True x upt show ?thesis by (simp del: upt_Suc)
    next
      case room: False
      let ?e = "e\<lparr>hits := hits e + 1\<rparr>"
      let ?st = "st(cid \<mapsto> ?e)"
      have r: "enforceRateLimit t cid st = (Inr (), ?st)"
        using Cons.prems(1) t room by (simp add: enforceRateLimit_def)
      have "verdicts cid calls ?st =
         map (\<lambda>k. if hits ?e + k < RATE_LIMIT_MAX_REQUESTS then Inr () else Inl too_many) [0..<?n]"
        using Cons.prems(2) by (intro Cons.IH) auto
      with room r True x upt show ?thesis by (simp del: upt_Suc add: comp_def)
    qed
  qed
qed

lemma verdicts_fresh:
  "st cid = None \<Longrightarrow> filter (\<lambda>x. snd x = cid) calls = (t0, cid) # rest \<Longrightarrow>
   \<forall>x\<in>set rest. fst x < t0 + RATE_LIMIT_WINDOW_MS \<Longrightarrow>
   verdicts cid calls st =
     Inr () # map (\<lambda>k. if Suc k < RATE_LIMIT_MAX_REQUESTS then Inr () else Inl too_many)
       [0..<length rest]"
proof (induction calls arbitrary: st)
  case Nil
  then show ?case by simp
next
  case (Cons x calls)
  obtain t c where x: "x = (t, c)" by (cases x)
  show ?case
  proof (cases "c = cid")
    case False
    then have "snd (enforceRateLimit t c st) cid = None"
      using Cons.prems(1) by (simp add: enforce_frame)
    moreover have "filter (\<lambda>x. snd x = cid) calls = (t0, cid) # rest"
      using Cons.prems(2) False x by simp
    ultimately have "verdicts cid calls (snd (enforceRateLimit t c st)) =
       Inr () # map (\<lambda>k. if Suc k < RATE_LIMIT_MAX_REQUESTS then Inr () else Inl too_many)
         [0..<length rest]"
      using Cons.prems(3) by (intro Cons.IH) auto
    with False x show ?thesis by (simp add: split_beta)
  next
    case True
    with Cons.prems(2) x have t: "t = t0" and rest: "rest = filter (\<lambda>x. snd x = cid) calls"
      by simp_all
    let ?e = "\<lparr>hits = 1, expiresAt = t0 + RATE_LIMIT_WINDOW_MS\<rparr>"
    let ?st = "st(cid \<mapsto> ?e)"
    have r: "enforceRateLimit t cid st = (Inr (), ?st)"
      using Cons.prems(1) t by (simp add: enforce_stale)
    have "verdicts cid calls ?st =
       map (\<lambda>k. if hits ?e + k < RATE_LIMIT_MAX_REQUESTS then Inr () else Inl too_many)
         [0..<length (filter (\<lambda>x. snd x = cid) calls)]"
      using Cons.prems(3) rest by (intro verdicts_in_window) auto
    with r True x rest show ?thesis by simp
  qed
qed

lemma ten_then_reject:
  "map (\<lambda>k. if Suc k < RATE_LIMIT_MAX_REQUESTS then Inr () else Inl too_many) [0..<10]
   = replicate 9 (Inr ()) @ [Inl too_many]"
  by (simp add: RATE_LIMIT_MAX_REQUESTS_def upt_conv_Cons numeral_eq_Suc del: upt_Suc)

text \<open>
  Claim C1. For a client identifier with no entry, whatever other clients do in between:
  of eleven calls of \<^verbatim>\<open>enforceRateLimit\<close> by that client, the ten after the first
  coming before the expiry the first one sets, the first ten are admitted and the
  eleventh is rejected with the \<^verbatim>\<open>ClientError\<close> of status 429. And a call at or after
  the expiry of the client's entry is admitted and overwrites the entry with one hit and
  the expiry \<open>now + RATE_LIMIT_WINDOW_MS\<close>.
\<close>

theorem rate_limit_window:
  "(st cid = None \<and> filter (\<lambda>x. snd x = cid) calls = (t0, cid) # rest \<and> length rest = 10 \<and>
      (\<forall>x\<in>set rest. fst x < t0 + RATE_LIMIT_WINDOW_MS)
    \<longrightarrow> verdicts cid calls st = replicate 10 (Inr ()) @ [Inl too_many] \<and> status too_many = 429)
   \<and> (st' cid = Some e \<and> expiresAt e \<le> now
    \<longrightarrow> enforceRateLimit now cid st' =
          (Inr (), st'(cid \<mapsto> \<lparr>hits = 1, expiresAt = now + RATE_LIMIT_WINDOW_MS\<rparr>)))"
proof (intro conjI impI)
  assume a: "st cid = None \<and> filter (\<lambda>x. snd x = cid) calls = (t0, cid) # rest \<and> length rest = 10 \<and>
      (\<forall>x\<in>set rest. fst x < t0 + RATE_LIMIT_WINDOW_MS)"
  then have "verdicts cid calls st =
     Inr () # map (\<lambda>k. if Suc k < RATE_LIMIT_MAX_REQUESTS then Inr () else Inl too_many) [0..<10]"
    using verdicts_fresh [of st cid calls t0 rest] by simp
  then show "verdicts cid calls st = replicate 10 (Inr ()) @ [Inl too_many]"
    by (simp only: ten_then_reject) (simp add: numeral_eq_Suc)
  show "status too_many = 429" by (simp add: too_many_def)
next
  assume "st' cid = Some e \<and> expiresAt e \<le> now"
  then show "enforceRateLimit now cid st' =
          (Inr (), st'(cid \<mapsto> \<lparr>hits = 1, expiresAt = now + RATE_LIMIT_WINDOW_MS\<rparr>))"
    by (intro enforce_stale) auto
qed

theorem rate_limit_window_witness:
  "verdicts (js ''10.0.0.7'')
     ((0, js ''10.0.0.7'') # (5, js ''10.0.0.8'') # replicate 10 (299999, js ''10.0.0.7'')) Map.empty
     = replicate 10 (Inr ()) @ [Inl too_many] \<and>
   status too_many = 429 \<and>
   enforceRateLimit 300000 (js ''10.0.0.7'')
       [js ''10.0.0.7'' \<mapsto> \<lparr>hits = 10, expiresAt = 300000\<rparr>] =
     (Inr (), [js ''10.0.0.7'' \<mapsto> \<lparr>hits = 10, expiresAt = 300000\<rparr>]
        (js ''10.0.0.7'' \<mapsto> \<lparr>hits = 1, expiresAt = 300000 + RATE_LIMIT_WINDOW_MS\<rparr>))"
proof -
  have ne: "js ''10.0.0.8'' \<noteq> js ''10.0.0.7''" by (simp add: js_def)
  show ?thesis
    using rate_limit_window [of Map.empty "js ''10.0.0.7''"
        "(0, js ''10.0.0.7'') # (5, js ''10.0.0.8'') # replicate 10 (299999, js ''10.0.0.7'')"
        0 "replicate 10 (299999, js ''10.0.0.7'')"
        "[js ''10.0.0.7'' \<mapsto> \<lparr>hits = 10, expiresAt = 300000\<rparr>]"
        "\<lparr>hits = 10, expiresAt = 300000\<rparr>" 300000] ne
    by (simp add: RATE_LIMIT_WINDOW_MS_def)
qed

text \<open>
  Claim C10. A call that \<^verbatim>\<open>enforceRateLimit\<close> rejects leaves the store as it was:
  neither the hit count nor the expiry of any entry changes. The error is the one of
  status 429, and a call is rejected exactly when the client's entry has not expired and
  its hit count has reached the maximum.
\<close>

theorem rejected_leaves_store:
  "(fst (enforceRateLimit now cid st) = Inl err \<longrightarrow>
      snd (enforceRateLimit now cid st) = st \<and> err = too_many \<and> status err = 429) \<and>
   (isl (fst (enforceRateLimit now cid st)) \<longleftrightarrow>
      (\<exists>e. st cid = Some e \<and> now < expiresAt e \<and> RATE_LIMIT_MAX_REQUESTS \<le> hits e))"
proof (intro conjI impI)
  assume a: "fst (enforceRateLimit now cid st) = Inl err"
  from enforce_reject [OF a] show "snd (enforceRateLimit now cid st) = st" by simp
  from enforce_reject [OF a] a show "err = too_many" by simp
  then show "status err = 429" by (simp add: too_many_def)
next
  show "isl (fst (enforceRateLimit now cid st)) \<longleftrightarrow>
      (\<exists>e. st cid = Some e \<and> now < expiresAt e \<and> RATE_LIMIT_MAX_REQUESTS \<le> hits e)"
    by (rule enforce_reject_iff)
qed

theorem rejected_leaves_store_witness:
  "fst (enforceRateLimit 7 (js ''10.0.0.7'') [js ''10.0.0.7'' \<mapsto> \<lparr>hits = 10, expiresAt = 9\<rparr>])
     = Inl too_many \<and>
   snd (enforceRateLimit 7 (js ''10.0.0.7'') [js ''10.0.0.7'' \<mapsto> \<lparr>hits = 10, expiresAt = 9\<rparr>])
     = [js ''10.0.0.7'' \<mapsto> \<lparr>hits = 10, expiresAt = 9\<rparr>] \<and>
   status too_many = 429"
proof -
  have r: "fst (enforceRateLimit 7 (js ''10.0.0.7'') [js ''10.0.0.7'' \<mapsto> \<lparr>hits = 10, expiresAt = 9\<rparr>])
     = Inl too_many"
    by (simp add: enforceRateLimit_def RATE_LIMIT_MAX_REQUESTS_def)
  show ?thesis
    using rejected_leaves_store [of 7 "js ''10.0.0.7''"
        "[js ''10.0.0.7'' \<mapsto> \<lparr>hits = 10, expiresAt = 9\<rparr>]" too_many] r
    by simp
qed

section \<open>Properties of the client identifier\<close>

lemma split_comma_first:
  "split_comma f = takeWhile (\<lambda>c. c \<noteq> 0x2C) f # tl (split_comma f)"
  by (induction f) (auto split: list.splits)

lemma or_unknown_simps:
  "or_unknown None = js ''unknown''"
  "or_unknown (Some s) = (if s = [] then js ''unknown'' else s)"
  by (simp_all add: or_unknown_def)

lemma getClientId_forwarded:
  "hdrs (js ''x-forwarded-for'') = Some f \<Longrightarrow> f \<noteq> [] \<Longrightarrow>
   getClientId hdrs = or_unknown (Some (trim (takeWhile (\<lambda>c. c \<noteq> 0x2C) f)))"
proof -
  assume h: "hdrs (js ''x-forwarded-for'') = Some f" "f \<noteq> []"
  obtain ps where "split_comma f = takeWhile (\<lambda>c. c \<noteq> 0x2C) f # ps"
    using split_comma_first by blast
  with h show ?thesis by (simp add: getClientId_def)
qed

lemma getClientId_not_forwarded:
  "hdrs (js ''x-forwarded-for'') = None \<or> hdrs (js ''x-forwarded-for'') = Some [] \<Longrightarrow>
   getClientId hdrs = or_unknown (hdrs (js ''x-real-ip''))"
  by (auto simp: getClientId_def)

text \<open>
  Claim C7, as the code has it. With a non-empty \<^verbatim>\<open>x-forwarded-for\<close> header the
  identifier is the trimmed first comma-separated value of that header, and
  \<^verbatim>\<open>"unknown"\<close> when that value trims to the empty string: \<^verbatim>\<open>x-real-ip\<close> is not
  read then. Without the header, or with an empty one, the identifier is the
  \<^verbatim>\<open>x-real-ip\<close> header when that is present and not empty, and \<^verbatim>\<open>"unknown"\<close>
  otherwise.
\<close>

theorem getClientId_cases:
  "(hdrs (js ''x-forwarded-for'') = Some f \<and> f \<noteq> [] \<and> trim (takeWhile (\<lambda>c. c \<noteq> 0x2C) f) \<noteq> []
      \<longrightarrow> getClientId hdrs = trim (takeWhile (\<lambda>c. c \<noteq> 0x2C) f)) \<and>
   (hdrs (js ''x-forwarded-for'') = Some f \<and> f \<noteq> [] \<and> trim (takeWhile (\<lambda>c. c \<noteq> 0x2C) f) = []
      \<longrightarrow> getClientId hdrs = js ''unknown'') \<and>
   ((hdrs (js ''x-forwarded-for'') = None \<or> hdrs (js ''x-forwarded-for'') = Some []) \<and>
    hdrs (js ''x-real-ip'') = Some r \<and> r \<noteq> []
      \<longrightarrow> getClientId hdrs = r) \<and>
   ((hdrs (js ''x-forwarded-for'') = None \<or> hdrs (js ''x-forwarded-for'') = Some []) \<and>
    (hdrs (js ''x-real-ip'') = None \<or> hdrs (js ''x-real-ip'') = Some [])
      \<longrightarrow> getClientId hdrs = js ''unknown'')"
proof (intro conjI impI)
  assume "hdrs (js ''x-forwarded-for'') = Some f \<and> f \<noteq> [] \<and> trim (takeWhile (\<lambda>c. c \<noteq> 0x2C) f) \<noteq> []"
  then show "getClientId hdrs = trim (takeWhile (\<lambda>c. c \<noteq> 0x2C) f)"
    by (simp add: getClientId_forwarded or_unknown_simps)
next
  assume "hdrs (js ''x-forwarded-for'') = Some f \<and> f \<noteq> [] \<and> trim (takeWhile (\<lambda>c. c \<noteq> 0x2C) f) = []"
  then show "getClientId hdrs = js ''unknown''"
    by (simp add: getClientId_forwarded or_unknown_simps)
next
  assume a: "(hdrs (js ''x-forwarded-for'') = None \<or> hdrs (js ''x-forwarded-for'') = Some []) \<and>
    hdrs (js ''x-real-ip'') = Some r \<and> r \<noteq> []"
  then have "getClientId hdrs = or_unknown (hdrs (js ''x-real-ip''))"
    by (intro getClientId_not_forwarded) simp
  with a show "getClientId hdrs = r" by (simp add: or_unknown_simps)
next
  assume a: "(hdrs (js ''x-forwarded-for'') = None \<or> hdrs (js ''x-forwarded-for'') = Some []) \<and>
    (hdrs (js ''x-real-ip'') = None \<or> hdrs (js ''x-real-ip'') = Some [])"
  then have "getClientId hdrs = or_unknown (hdrs (js ''x-real-ip''))"
    by (intro getClientId_not_forwarded) simp
  with a show "getClientId hdrs = js ''unknown''" by (auto simp: or_unknown_simps)
qed

theorem getClientId_cases_witness:
  "getClientId [js ''x-real-ip'' \<mapsto> js ''5.6.7.8'', js ''x-forwarded-for'' \<mapsto> js '' 9.9.9.9 , 1.2.3.4'']
     = js ''9.9.9.9'' \<and>
   getClientId [js ''x-real-ip'' \<mapsto> js ''5.6.7.8''] = js ''5.6.7.8''"
proof -
  have ne: "js ''x-real-ip'' \<noteq> js ''x-forwarded-for''" "js ''x-forwarded-for'' \<noteq> js ''x-real-ip''"
    by (simp_all add: js_def)
  have t: "trim (takeWhile (\<lambda>c. c \<noteq> 0x2C) (js '' 9.9.9.9 , 1.2.3.4'')) = js ''9.9.9.9''"
    by code_simp
  have n: "js '' 9.9.9.9 , 1.2.3.4'' \<noteq> []" "js ''9.9.9.9'' \<noteq> []" "js ''5.6.7.8'' \<noteq> []"
    by (simp_all add: js_def)
  show ?thesis
    using getClientId_cases [of "[js ''x-real-ip'' \<mapsto> js ''5.6.7.8'', js ''x-forwarded-for'' \<mapsto> js '' 9.9.9.9 , 1.2.3.4'']"
        "js '' 9.9.9.9 , 1.2.3.4''" "js ''5.6.7.8''"]
      getClientId_cases [of "[js ''x-real-ip'' \<mapsto> js ''5.6.7.8'']" "[]" "js ''5.6.7.8''"]
      ne t n
    by simp
qed

theorem getClientId_blank_first_counterexample:
  "getClientId [js ''x-real-ip'' \<mapsto> js ''5.6.7.8'', js ''x-forwarded-for'' \<mapsto> js '' ,1.2.3.4'']
     = js ''unknown'' \<and>
   getClientId [js ''x-real-ip'' \<mapsto> js ''5.6.7.8'', js ''x-forwarded-for'' \<mapsto> js '' ,1.2.3.4'']
     \<noteq> js ''5.6.7.8''"
  by code_simp

section \<open>Properties of parseServices\<close>

lemma set_from_set: "set (from_set xs) = set xs"
  by (induction xs rule: from_set.induct) auto

lemma distinct_from_set: "distinct (from_set xs)"
  by (induction xs rule: from_set.induct) (auto simp: set_from_set)

lemma length_sanitizeText: "0 \<le> n \<Longrightarrow> int (length (sanitizeText s n)) \<le> n"
  by (simp add: sanitizeText_def length_slice0)

lemma parseServices_unique:
  "parseServices fd =
     (let u = from_set (filter (\<lambda>s. s \<noteq> [])
                (map (\<lambda>x. sanitizeText (toString x) 10) (fd_getAll fd (js ''service_options''))))
      in if u \<noteq> [] \<and> set u \<subseteq> ALLOWED_SERVICES then Inr u else Inl services_error)"
  by (auto simp: parseServices_def Let_def filter_empty_conv)

lemma parseServices_examples:
  "parseServices [(js ''service_options'', Text (js ''AM'')), (js ''service_options'', Text (js ''AM'')),
       (js ''service_options'', Text (js ''PM''))] = Inr [js ''AM'', js ''PM'']"
  "parseServices [] = Inl services_error"
  "parseServices [(js ''service_options'', Text (js ''XX''))] = Inl services_error"
  by code_simp+

text \<open>
  Claim C4. Each raw \<^verbatim>\<open>service_options\<close> value is sanitized to at most 10 characters
  and empty results are dropped; with \<open>S\<close> the set of what remains, \<^verbatim>\<open>parseServices\<close>
  returns a duplicate-free list of exactly the members of \<open>S\<close> when \<open>S\<close> is not empty and
  every member is one of AM, PM and 1/2, and throws its one \<^verbatim>\<open>ClientError\<close> (status
  400) otherwise. AM, AM, PM gives AM and PM; no value, or the value XX, gives the error.
\<close>

theorem parseServices_spec:
  "(\<forall>s \<in> set (map (\<lambda>x. sanitizeText (toString x) 10) (fd_getAll fd (js ''service_options''))).
      length s \<le> 10) \<and>
   (set (map (\<lambda>x. sanitizeText (toString x) 10) (fd_getAll fd (js ''service_options''))) - {[]} \<noteq> {} \<and>
    set (map (\<lambda>x. sanitizeText (toString x) 10) (fd_getAll fd (js ''service_options''))) - {[]}
      \<subseteq> {js ''AM'', js ''PM'', js ''1/2''}
    \<longrightarrow> (\<exists>u. parseServices fd = Inr u \<and> distinct u \<and>
           set u = set (map (\<lambda>x. sanitizeText (toString x) 10)
                          (fd_getAll fd (js ''service_options''))) - {[]})) \<and>
   (\<not> (set (map (\<lambda>x. sanitizeText (toString x) 10) (fd_getAll fd (js ''service_options''))) - {[]} \<noteq> {} \<and>
       set (map (\<lambda>x. sanitizeText (toString x) 10) (fd_getAll fd (js ''service_options''))) - {[]}
         \<subseteq> {js ''AM'', js ''PM'', js ''1/2''})
    \<longrightarrow> parseServices fd = Inl services_error) \<and>
   status services_error = 400 \<and>
   parseServices [(js ''service_options'', Text (js ''AM'')), (js ''service_options'', Text (js ''AM'')),
       (js ''service_options'', Text (js ''PM''))] = Inr [js ''AM'', js ''PM''] \<and>
   parseServices [] = Inl services_error \<and>
   parseServices [(js ''service_options'', Text (js ''XX''))] = Inl services_error"
proof -
  let ?vals = "map (\<lambda>x. sanitizeText (toString x) 10) (fd_getAll fd (js ''service_options''))"
  let ?u = "from_set (filter (\<lambda>s. s \<noteq> []) ?vals)"
  have su: "set ?u = set ?vals - {[]}"
    by (auto simp: set_from_set)
  have len: "\<forall>s\<in>set ?vals. length s \<le> 10"
    using length_sanitizeText [of 10] by fastforce
  have ok: "set ?vals - {[]} \<noteq> {} \<and> set ?vals - {[]} \<subseteq> {js ''AM'', js ''PM'', js ''1/2''}
      \<longrightarrow> (\<exists>u. parseServices fd = Inr u \<and> distinct u \<and> set u = set ?vals - {[]})"
  proof
    assume a: "set ?vals - {[]} \<noteq> {} \<and> set ?vals - {[]} \<subseteq> {js ''AM'', js ''PM'', js ''1/2''}"
    then have "?u \<noteq> []" "set ?u \<subseteq> ALLOWED_SERVICES"
      unfolding su [symmetric] ALLOWED_SERVICES_def by auto
    then have "parseServices fd = Inr ?u"
      by (simp add: parseServices_unique Let_def)
    then show "\<exists>u. parseServices fd = Inr u \<and> distinct u \<and> set u = set ?vals - {[]}"
      using su distinct_from_set by blast
  qed
  have bad: "\<not> (set ?vals - {[]} \<noteq> {} \<and> set ?vals - {[]} \<subseteq> {js ''AM'', js ''PM'', js ''1/2''})
      \<longrightarrow> parseServices fd = Inl services_error"
  proof
    assume "\<not> (set ?vals - {[]} \<noteq> {} \<and> set ?vals - {[]} \<subseteq> {js ''AM'', js ''PM'', js ''1/2''})"
    then have "\<not> (?u \<noteq> [] \<and> set ?u \<subseteq> ALLOWED_SERVICES)"
      unfolding su [symmetric] ALLOWED_SERVICES_def by auto
    then show "parseServices fd = Inl services_error"
      by (simp add: parseServices_unique Let_def)
  qed
  have st: "status services_error = 400" by (simp add: services_error_def)
  show ?thesis
    using len ok bad st parseServices_examples by (intro conjI)
qed

theorem parseServices_spec_witness:
  "parseServices [(js ''service_options'', Text (js '' PM '')), (js ''student_name'', Text (js ''Ana'')),
       (js ''service_options'', Text (js ''1/2'')), (js ''service_options'', Text (js ''PM''))]
     = Inr [js ''PM'', js ''1/2''] \<and>
   parseServices [(js ''service_options'', Text (js ''AM'')), (js ''service_options'', File (js ''a.txt''))]
     = Inl services_error \<and>
   status services_error = 400"
proof -
  let ?fd = "[(js ''service_options'', Text (js '' PM '')), (js ''student_name'', Text (js ''Ana'')),
       (js ''service_options'', Text (js ''1/2'')), (js ''service_options'', Text (js ''PM''))]"
  let ?fd2 = "[(js ''service_options'', Text (js ''AM'')), (js ''service_options'', File (js ''a.txt''))]"
  let ?S = "set (map (\<lambda>x. sanitizeText (toString x) 10) (fd_getAll ?fd2 (js ''service_options''))) - {[]}"
  have v2: "map (\<lambda>x. sanitizeText (toString x) 10) (fd_getAll ?fd2 (js ''service_options''))
      = [[0x41, 0x4D], [0x5B, 0x6F, 0x62, 0x6A, 0x65, 0x63, 0x74, 0x20, 0x46, 0x69]]"
    by code_simp
  have "\<not> ?S \<subseteq> {js ''AM'', js ''PM'', js ''1/2''}"
    unfolding v2 by (simp add: js_def)
  then have "parseServices ?fd2 = Inl services_error \<and> status services_error = 400"
    using parseServices_spec [of ?fd2] by blast
  moreover have "parseServices ?fd = Inr [js ''PM'', js ''1/2'']"
    by code_simp
  ultimately show ?thesis by simp
qed

section \<open>Properties of parseField\<close>

lemma length_js: "length (js s) = length s"
  by (simp add: js_def)

lemma required_not_format: "required_error l \<noteq> format_error l"
proof
  assume "required_error l = format_error l"
  then have "length (message (required_error l)) = length (message (format_error l))"
    by simp
  then show False
    by (simp add: required_error_def format_error_def length_js)
qed

lemma sanitizeText_Nil_iff:
  "0 < n \<Longrightarrow> sanitizeText s n = [] \<longleftrightarrow> (\<forall>c\<in>set s. is_control c \<or> is_space c)"
  by (simp add: sanitizeText_def slice0_Nil_iff normalized_Nil_iff)

lemma sanitizeText_blank:
  "\<forall>c\<in>set s. is_control c \<or> is_space c \<Longrightarrow> sanitizeText s n = []"
proof -
  assume "\<forall>c\<in>set s. is_control c \<or> is_space c"
  then have "normalized s = []" by (simp add: normalized_Nil_iff)
  then show ?thesis by (simp add: sanitizeText_def slice0_def)
qed

lemma required_error_iff:
  "parseField fd key opts = Inl (required_error (label_of key opts)) \<longleftrightarrow>
     (case fd_get fd key of
        None \<Rightarrow> True
      | Some v \<Rightarrow> falsy v \<or>
          sanitizeText (toString v) (case maxLength opts of Some m \<Rightarrow> m | None \<Rightarrow> 180) = [])"
  by (auto simp: parseField_def Let_def required_not_format [symmetric] split: option.splits)

lemma parseField_blank:
  "\<forall>c\<in>set s. is_control c \<or> is_space c \<Longrightarrow>
   parseField ((key, Text s) # fd) key opts = parseField [] key opts"
  by (simp add: parseField_def Let_def sanitizeText_blank)

text \<open>
  Claim C5. \<^verbatim>\<open>parseField\<close> throws the "required" \<^verbatim>\<open>ClientError\<close> of the field's
  label exactly when the form has no value for the key, or the value is the empty
  string, or its sanitized form is empty. For a positive maximum length the sanitized
  form is empty exactly when every character of the input is whitespace or a control
  character, and such an input gets the very error of a missing value.
\<close>

theorem parseField_required:
  "(parseField fd key opts = Inl (required_error (label_of key opts)) \<longleftrightarrow>
     (case fd_get fd key of
        None \<Rightarrow> True
      | Some v \<Rightarrow> falsy v \<or>
          sanitizeText (toString v) (case maxLength opts of Some m \<Rightarrow> m | None \<Rightarrow> 180) = [])) \<and>
   (0 < n \<longrightarrow> (sanitizeText s n = [] \<longleftrightarrow> (\<forall>c\<in>set s. is_control c \<or> is_space c))) \<and>
   ((\<forall>c\<in>set s. is_control c \<or> is_space c) \<longrightarrow>
      parseField ((key, Text s) # fd) key opts = parseField [] key opts \<and>
      parseField [] key opts = Inl (required_error (label_of key opts)))"
proof (intro conjI impI)
  show "parseField fd key opts = Inl (required_error (label_of key opts)) \<longleftrightarrow>
     (case fd_get fd key of
        None \<Rightarrow> True
      | Some v \<Rightarrow> falsy v \<or>
          sanitizeText (toString v) (case maxLength opts of Some m \<Rightarrow> m | None \<Rightarrow> 180) = [])"
    by (rule required_error_iff)
next
  assume "0 < n"
  then show "sanitizeText s n = [] \<longleftrightarrow> (\<forall>c\<in>set s. is_control c \<or> is_space c)"
    by (rule sanitizeText_Nil_iff)
next
  assume "\<forall>c\<in>set s. is_control c \<or> is_space c"
  then show "parseField ((key, Text s) # fd) key opts = parseField [] key opts"
    by (rule parseField_blank)
next
  show "parseField [] key opts = Inl (required_error (label_of key opts))"
    by (simp add: parseField_def)
qed

theorem parseField_required_witness:
  "parseField [(js ''bloque'', Text [0x20, 0x09, 0xA0])] (js ''bloque'')
      \<lparr>maxLength = Some 50, pattern = None, label = Some (js ''bloque o interior'')\<rparr>
     = Inl (required_error (js ''bloque o interior'')) \<and>
   sanitizeText [0x20, 0x09, 0xA0] 50 = [] \<and>
   parseField [(js ''bloque'', Text [0x20, 0x09, 0xA0])] (js ''bloque'')
      \<lparr>maxLength = Some 50, pattern = None, label = Some (js ''bloque o interior'')\<rparr>
     = parseField [] (js ''bloque'')
      \<lparr>maxLength = Some 50, pattern = None, label = Some (js ''bloque o interior'')\<rparr>"
proof -
  let ?o = "\<lparr>maxLength = Some 50, pattern = None, label = Some (js ''bloque o interior'')\<rparr>"
  have b: "\<forall>c\<in>set [0x20, 0x09, 0xA0 :: unit16]. is_control c \<or> is_space c"
    by (simp add: is_space_def)
  have l: "label_of (js ''bloque'') ?o = js ''bloque o interior''"
    by (simp add: label_of_def js_def)
  show ?thesis
    using parseField_required [where fd = "[(js ''bloque'', Text [0x20, 0x09, 0xA0])]"
        and key = "js ''bloque''" and opts = ?o and n = 50 and s = "[0x20, 0x09, 0xA0]"] b l
    by simp
qed

section \<open>Whitespace runs between two characters\<close>

lemma rwr_append_nonspace:
  "\<not> is_space x \<Longrightarrow>
   replace_ws_runs (p @ x # q) = replace_ws_runs p @ x # replace_ws_runs q"
proof (induction p rule: replace_ws_runs.induct)
  case 1
  then show ?case by simp
next
  case (2 c cs)
  show ?case
  proof (cases "is_space c")
    case True
    have "dropWhile is_space (cs @ x # q) = dropWhile is_space cs @ x # q"
      using 2(3) by (simp add: dropWhile_append3)
    with 2(1) [OF True 2(3)] True show ?thesis by simp
  next
    case False
    with 2(2) [OF False 2(3)] show ?thesis by simp
  qed
qed

lemma rwr_gap:
  "w \<noteq> [] \<Longrightarrow> \<forall>c\<in>set w. is_space c \<Longrightarrow> \<not> is_space y \<Longrightarrow>
   replace_ws_runs (w @ y # q) = SP # y # replace_ws_runs q"
proof -
  assume w: "w \<noteq> []" "\<forall>c\<in>set w. is_space c" and y: "\<not> is_space y"
  then obtain c cs where c: "w = c # cs" by (cases w) auto
  with w have "dropWhile is_space (cs @ y # q) = y # q"
    using y by (simp add: dropWhile_append)
  with c w y show ?thesis by simp
qed

lemma trim_last_nonspace:
  "\<not> is_space x \<Longrightarrow> trim (a @ [x]) = dropWhile is_space (a @ [x])"
proof -
  assume x: "\<not> is_space x"
  then have "last (dropWhile is_space (a @ [x])) = x" "dropWhile is_space (a @ [x]) \<noteq> []"
    by (simp_all add: dropWhile_append)
  then have "dropWhile is_space (rev (dropWhile is_space (a @ [x]))) = rev (dropWhile is_space (a @ [x]))"
    using x by (cases "rev (dropWhile is_space (a @ [x]))") (auto simp: last_rev hd_rev [symmetric])
  then show ?thesis by (simp only: trim_def rev_rev_ident)
qed

lemma trim_first_nonspace:
  "\<not> is_space y \<Longrightarrow> trim (y # b) = rev (dropWhile is_space (rev (y # b)))"
  by (simp add: trim_def)

lemma trim_between:
  "\<not> is_space x \<Longrightarrow> \<not> is_space y \<Longrightarrow>
   trim (a @ x # m @ y # b) = trim (a @ [x]) @ m @ trim (y # b)"
proof -
  assume x: "\<not> is_space x" and y: "\<not> is_space y"
  have l: "dropWhile is_space (a @ x # m @ y # b) = dropWhile is_space (a @ [x]) @ m @ y # b"
    using x by (simp add: dropWhile_append)
  have "rev (dropWhile is_space (a @ [x]) @ m @ y # b)
      = rev b @ y # (rev m @ rev (dropWhile is_space (a @ [x])))"
    by simp
  then have "dropWhile is_space (rev (dropWhile is_space (a @ [x]) @ m @ y # b))
      = dropWhile is_space (rev b @ [y]) @ rev m @ rev (dropWhile is_space (a @ [x]))"
    using y by (simp add: dropWhile_append)
  then have "trim (a @ x # m @ y # b)
      = dropWhile is_space (a @ [x]) @ m @ rev (dropWhile is_space (rev b @ [y]))"
    by (simp add: trim_def l)
  then show ?thesis
    using x y by (simp add: trim_last_nonspace trim_first_nonspace)
qed

lemma normalized_between:
  assumes x: "\<not> is_space x" "\<not> is_control x" and y: "\<not> is_space y" "\<not> is_control y"
      and w: "\<forall>c\<in>set w. is_space c \<or> is_control c"
  shows "normalized (u @ x # w @ y # v) =
         normalized (u @ [x]) @ (if \<exists>c\<in>set w. \<not> is_control c then [SP] else []) @ normalized (y # v)"
proof -
  let ?U = "replace_ws_runs (strip_controls u)"
  let ?V = "replace_ws_runs (strip_controls v)"
  let ?w = "strip_controls w"
  let ?m = "if \<exists>c\<in>set w. \<not> is_control c then [SP] else []"
  have ws: "\<forall>c\<in>set ?w. is_space c" using w by (auto simp: strip_controls_def)
  have ne: "?w \<noteq> [] \<longleftrightarrow> (\<exists>c\<in>set w. \<not> is_control c)"
    by (auto simp: strip_controls_def filter_empty_conv)
  have s: "strip_controls (u @ x # w @ y # v) = strip_controls u @ x # ?w @ y # strip_controls v"
    using x y by (simp add: strip_controls_def)
  have g: "replace_ws_runs (?w @ y # strip_controls v) = ?m @ y # ?V"
  proof (cases "?w = []")
    case True
    with ne y show ?thesis by simp
  next
    case False
    with ne rwr_gap [OF False ws y(1)] show ?thesis by simp
  qed
  have "replace_ws_runs (strip_controls u @ x # (?w @ y # strip_controls v))
      = ?U @ x # replace_ws_runs (?w @ y # strip_controls v)"
    using x(1) by (rule rwr_append_nonspace)
  then have "replace_ws_runs (strip_controls (u @ x # w @ y # v)) = ?U @ x # ?m @ y # ?V"
    by (simp only: s g)
  moreover have "trim (?U @ x # ?m @ y # ?V) = trim (?U @ [x]) @ ?m @ trim (y # ?V)"
    using x(1) y(1) by (rule trim_between)
  ultimately have "normalized (u @ x # w @ y # v) = trim (?U @ [x]) @ ?m @ trim (y # ?V)"
    by (simp only: normalized_def)
  moreover have "normalized (u @ [x]) = trim (?U @ [x])"
    using x rwr_append_nonspace [of x "strip_controls u" "[]"]
    by (simp add: normalized_def strip_controls_def)
  moreover have "normalized (y # v) = trim (y # ?V)"
    using y by (simp add: normalized_def strip_controls_def)
  ultimately show ?thesis by simp
qed

text \<open>
  Claim C6, as the code has it. \<^verbatim>\<open>sanitizeText\<close> first deletes the control characters,
  tabs and newlines among them, and only then replaces whitespace runs; truncation
  comes last. So for two characters \<open>x\<close> and \<open>y\<close> that are neither whitespace nor
  control characters, with only whitespace and control characters between them: when
  one of the characters between them is not a control character, \<open>x\<close> and \<open>y\<close> are
  separated by exactly one space in the untruncated result, and when all of them are
  control characters, \<open>y\<close> follows \<open>x\<close> directly. The untruncated result has no
  whitespace at either end, and its only whitespace character is the space.
\<close>

theorem sanitizeText_runs:
  "sanitizeText s n = slice0 (normalized s) n \<and>
   (\<not> is_space x \<and> \<not> is_control x \<and> \<not> is_space y \<and> \<not> is_control y \<and>
    (\<forall>c\<in>set w. is_space c \<or> is_control c) \<longrightarrow>
      normalized (u @ x # w @ y # v) =
        normalized (u @ [x]) @ (if \<exists>c\<in>set w. \<not> is_control c then [SP] else []) @
        normalized (y # v) \<and>
      last (normalized (u @ [x])) = x \<and> hd (normalized (y # v)) = y) \<and>
   (normalized s \<noteq> [] \<longrightarrow>
      \<not> is_space (hd (normalized s)) \<and> \<not> is_space (last (normalized s))) \<and>
   (\<forall>c\<in>set (normalized s). is_space c \<longrightarrow> c = SP)"
proof (intro conjI impI)
  show "sanitizeText s n = slice0 (normalized s) n"
    by (simp add: sanitizeText_def)
next
  assume a: "\<not> is_space x \<and> \<not> is_control x \<and> \<not> is_space y \<and> \<not> is_control y \<and>
    (\<forall>c\<in>set w. is_space c \<or> is_control c)"
  then show "normalized (u @ x # w @ y # v) =
        normalized (u @ [x]) @ (if \<exists>c\<in>set w. \<not> is_control c then [SP] else []) @
        normalized (y # v)"
    by (intro normalized_between) simp_all
  from a have "normalized (u @ [x]) = dropWhile is_space (replace_ws_runs (strip_controls u) @ [x])"
    using rwr_append_nonspace [of x "strip_controls u" "[]"]
    by (simp add: normalized_def strip_controls_def trim_last_nonspace)
  with a show "last (normalized (u @ [x])) = x"
    by (simp add: dropWhile_append)
  from a have "normalized (y # v) = rev (dropWhile is_space (rev (y # replace_ws_runs (strip_controls v))))"
    by (simp add: normalized_def strip_controls_def trim_def)
  with a show "hd (normalized (y # v)) = y"
    by (simp add: dropWhile_append hd_rev)
next
  assume "normalized s \<noteq> []"
  then show "\<not> is_space (hd (normalized s))" "\<not> is_space (last (normalized s))"
    by (simp_all add: normalized_ends)
next
  show "\<forall>c\<in>set (normalized s). is_space c \<longrightarrow> c = SP"
    using normalized_space_is_SP by blast
qed

theorem sanitizeText_runs_witness:
  "normalized (js '' a'' @ [0x62] @ [0x09, 0x20, 0xA0, 0x0A] @ [0x63] @ js ''d '') = js ''ab cd'' \<and>
   normalized (js '' a'' @ [0x62]) = js ''ab'' \<and> normalized (0x63 # js ''d '') = js ''cd'' \<and>
   sanitizeText (js '' ab'' @ [0x09, 0x20, 0xA0, 0x0A] @ js ''cd '') 4 = js ''ab c''"
proof -
  have a: "normalized (js '' a'' @ [0x62]) = [0x61, 0x62]" "normalized (0x63 # js ''d '') = [0x63, 0x64]"
    by code_simp+
  have c: "\<not> is_space 0x62" "\<not> is_control 0x62" "\<not> is_space 0x63" "\<not> is_control 0x63"
      "\<forall>c\<in>set [0x09, 0x20, 0xA0, 0x0A :: unit16]. is_space c \<or> is_control c"
      "\<exists>c\<in>set [0x09, 0x20, 0xA0, 0x0A :: unit16]. \<not> is_control c"
    by (simp_all add: is_space_def is_control_def)
  have j: "js ''ab cd'' = [0x61, 0x62, 0x20, 0x63, 0x64]" "js ''ab'' = [0x61, 0x62]"
      "js ''cd'' = [0x63, 0x64]"
    by (simp_all add: js_def)
  have t: "sanitizeText (js '' ab'' @ [0x09, 0x20, 0xA0, 0x0A] @ js ''cd '') 4 = js ''ab c''"
    by code_simp
  have "normalized (js '' a'' @ 0x62 # [0x09, 0x20, 0xA0, 0x0A] @ 0x63 # js ''d '')
      = [0x61, 0x62] @ [SP] @ [0x63, 0x64]"
    using sanitizeText_runs [where x = "0x62" and y = "0x63" and w = "[0x09, 0x20, 0xA0, 0x0A]"
        and u = "js '' a''" and v = "js ''d ''"] c a
    by (simp del: set_simps)
  then show ?thesis
    using a j t by (simp add: SP_def)
qed

theorem sanitizeText_newline_counterexample:
  "is_space 0x0A \<and> \<not> is_space 0x61 \<and> \<not> is_space 0x62 \<and>
   sanitizeText [0x61, 0x0A, 0x62] 180 = [0x61, 0x62] \<and>
   sanitizeText [0x61, 0x0A, 0x62] 180 \<noteq> [0x61, 0x20, 0x62]"
  by code_simp

section \<open>Validating a validated value\<close>

lemma normalized_fix:
  assumes "\<forall>c\<in>set v. \<not> is_control c \<and> (is_space c \<longrightarrow> c = SP)" "\<not> ws_run v"
      and "v = [] \<or> (\<not> is_space (hd v) \<and> \<not> is_space (last v))"
  shows "normalized v = v"
  using assms by (simp add: normalized_def strip_fix rwr_fix trim_fix)

lemma normalized_prefix_fix:
  assumes v: "v = slice0 (normalized raw) n" "v \<noteq> []" and l: "\<not> is_space (last v)"
  shows "normalized v = v"
proof (rule normalized_fix)
  obtain b where b: "normalized raw = v @ b"
    using slice0_prefix [of "normalized raw" n] v(1) by auto
  then have sub: "set v \<subseteq> set (normalized raw)" by (metis set_append Un_upper1)
  show "\<forall>c\<in>set v. \<not> is_control c \<and> (is_space c \<longrightarrow> c = SP)"
    using sub normalized_no_control [of _ raw] normalized_space_is_SP [of _ raw] by blast
  show "\<not> ws_run v"
    using b normalized_no_ws_run [of raw] ws_run_appendI1 [of v b] by auto
  have "hd v = hd (normalized raw)" "normalized raw \<noteq> []"
    using b v(2) by simp_all
  then have "\<not> is_space (hd v)" using normalized_ends [of raw] by simp
  with l show "v = [] \<or> (\<not> is_space (hd v) \<and> \<not> is_space (last v))" by simp
qed

lemma sanitizeText_again:
  assumes "v = sanitizeText raw n" "v \<noteq> []" "0 \<le> n" "\<not> is_space (last v)"
  shows "sanitizeText v n = v"
proof -
  have "normalized v = v"
    using assms by (intro normalized_prefix_fix [of v raw n]) (simp_all add: sanitizeText_def)
  moreover have "int (length v) \<le> n"
    using assms(1,3) by (simp add: length_sanitizeText)
  ultimately show ?thesis by (simp add: sanitizeText_def slice0_fits)
qed

lemma parseField_Inr:
  "parseField fd key opts = Inr v \<Longrightarrow>
   \<exists>raw. fd_get fd key = Some raw \<and> \<not> falsy raw \<and> v \<noteq> [] \<and>
     v = sanitizeText (toString raw) (case maxLength opts of Some m \<Rightarrow> m | None \<Rightarrow> 180) \<and>
     (case pattern opts of Some p \<Rightarrow> p v | None \<Rightarrow> True)"
  by (auto simp: parseField_def Let_def split: option.splits if_splits)

lemma parseField_Text:
  "v \<noteq> [] \<Longrightarrow> sanitizeText v (case maxLength opts of Some m \<Rightarrow> m | None \<Rightarrow> 180) = v \<Longrightarrow>
   (case pattern opts of Some p \<Rightarrow> p v | None \<Rightarrow> True) \<Longrightarrow>
   parseField ((key, Text v) # fd') key opts = Inr v"
  by (auto simp: parseField_def Let_def split: option.splits)

section \<open>Strings without unpaired surrogates\<close>

lemma space_not_surrogate: "is_space c \<Longrightarrow> \<not> is_high c \<and> \<not> is_low c"
  unfolding is_space_def is_high_def is_low_def word_le_nat_alt
  by (elim disjE conjE) simp_all

lemma control_not_surrogate: "is_control c \<Longrightarrow> \<not> is_high c \<and> \<not> is_low c"
  unfolding is_control_def is_high_def is_low_def word_le_nat_alt
  by (elim disjE conjE) simp_all

lemma SP_not_surrogate: "\<not> is_high SP \<and> \<not> is_low SP"
  by (simp add: space_not_surrogate is_space_SP)

lemma high_not_low: "is_high c \<Longrightarrow> \<not> is_low c"
  unfolding is_high_def is_low_def word_le_nat_alt by simp

lemma well_formed_plain: "\<not> is_high c \<Longrightarrow> \<not> is_low c \<Longrightarrow> well_formed (c # cs) = well_formed cs"
  by simp

lemma well_formed_pair: "is_high c \<Longrightarrow> well_formed (c # d # ds) = (is_low d \<and> well_formed ds)"
  by simp

lemma well_formed_filter:
  "well_formed s \<Longrightarrow> \<forall>c. \<not> P c \<longrightarrow> \<not> is_high c \<and> \<not> is_low c \<Longrightarrow> well_formed (filter P s)"
proof (induction s rule: well_formed.induct)
  case 1
  show ?case by simp
next
  case (2 c cs)
  show ?case
  proof (cases "is_high c")
    case True
    with 2(3) obtain d ds where cs: "cs = d # ds" "is_low d" "well_formed ds"
      by (cases cs) auto
    from True 2(4) have "P c" by blast
    moreover from cs 2(4) have "P d" by blast
    moreover from 2(1) [OF True cs(1)] cs 2(4) have "well_formed (filter P ds)" by simp
    ultimately show ?thesis using True cs by simp
  next
    case False
    with 2(3) have "\<not> is_low c" "well_formed cs" by simp_all
    with 2(2) [OF False] 2(4) False show ?thesis by simp
  qed
qed

lemma well_formed_dropWhile:
  "well_formed s \<Longrightarrow> \<forall>c. P c \<longrightarrow> \<not> is_high c \<and> \<not> is_low c \<Longrightarrow> well_formed (dropWhile P s)"
proof (induction s)
  case Nil
  show ?case by simp
next
  case (Cons c cs)
  show ?case
  proof (cases "P c")
    case True
    with Cons.prems have "well_formed cs" by simp
    with Cons.IH Cons.prems(2) True show ?thesis by simp
  next
    case False
    with Cons.prems(1) show ?thesis by simp
  qed
qed

lemma well_formed_butsuffix:
  "well_formed (a @ b) \<Longrightarrow> \<forall>c\<in>set b. \<not> is_high c \<and> \<not> is_low c \<Longrightarrow> well_formed a"
proof (induction a rule: well_formed.induct)
  case 1
  show ?case by simp
next
  case (2 c cs)
  show ?case
  proof (cases "is_high c")
    case True
    show ?thesis
    proof (cases cs)
      case Nil
      with True 2(3,4) show ?thesis by (cases b) auto
    next
      case (Cons d ds)
      with True 2(3) have "is_low d" "well_formed (ds @ b)" by simp_all
      with 2(1) [OF True Cons] 2(4) True Cons show ?thesis by simp
    qed
  next
    case False
    with 2(3) have "\<not> is_low c" "well_formed (cs @ b)" by simp_all
    with 2(2) [OF False] 2(4) False show ?thesis by simp
  qed
qed

lemma well_formed_rwr: "well_formed s \<Longrightarrow> well_formed (replace_ws_runs s)"
proof (induction "length s" arbitrary: s rule: less_induct)
  case less
  show ?case
  proof (cases s)
    case Nil
    then show ?thesis by simp
  next
    case (Cons c cs)
    show ?thesis
    proof (cases "is_space c")
      case True
      with less.prems Cons have "well_formed cs" by (simp add: space_not_surrogate)
      then have "well_formed (dropWhile is_space cs)"
        by (rule well_formed_dropWhile) (simp add: space_not_surrogate)
      moreover have "length (dropWhile is_space cs) < length s"
        using Cons length_dropWhile_le [of is_space cs] by simp
      ultimately have "well_formed (replace_ws_runs (dropWhile is_space cs))"
        by (intro less.hyps)
      with True Cons show ?thesis by (simp add: SP_not_surrogate)
    next
      case False
      show ?thesis
      proof (cases "is_high c")
        case high: True
        with less.prems Cons obtain d ds where cs: "cs = d # ds" "is_low d" "well_formed ds"
          by (cases cs) auto
        from cs(2) have "\<not> is_space d" using space_not_surrogate by blast
        moreover have "well_formed (replace_ws_runs ds)"
          using cs Cons by (intro less.hyps) simp_all
        ultimately show ?thesis using False high cs Cons by simp
      next
        case plain: False
        with less.prems Cons have "\<not> is_low c" "well_formed cs" by simp_all
        moreover then have "well_formed (replace_ws_runs cs)"
          using Cons by (intro less.hyps) simp_all
        ultimately show ?thesis using False plain Cons by simp
      qed
    qed
  qed
qed

lemma trim_suffix: "\<exists>b. dropWhile is_space s = trim s @ b \<and> (\<forall>c\<in>set b. is_space c)"
proof -
  let ?t = "dropWhile is_space s"
  have "rev (takeWhile is_space (rev ?t) @ dropWhile is_space (rev ?t)) = ?t"
    by (simp only: takeWhile_dropWhile_id rev_rev_ident)
  then have "?t = trim s @ rev (takeWhile is_space (rev ?t))"
    by (simp only: trim_def rev_append)
  moreover have "\<forall>c\<in>set (rev (takeWhile is_space (rev ?t))). is_space c"
    by (auto dest: set_takeWhileD)
  ultimately show ?thesis by blast
qed

lemma well_formed_trim: "well_formed s \<Longrightarrow> well_formed (trim s)"
proof -
  assume "well_formed s"
  then have t: "well_formed (dropWhile is_space s)"
    by (rule well_formed_dropWhile) (simp add: space_not_surrogate)
  obtain b where "dropWhile is_space s = trim s @ b" "\<forall>c\<in>set b. is_space c"
    using trim_suffix by blast
  with t show ?thesis
    using well_formed_butsuffix [of "trim s" b] space_not_surrogate by auto
qed

lemma well_formed_normalized: "well_formed s \<Longrightarrow> well_formed (normalized s)"
  unfolding normalized_def strip_controls_def
  by (intro well_formed_trim well_formed_rwr well_formed_filter)
     (simp_all add: control_not_surrogate)

lemma well_formed_toString: "well_formed (toString (File name))"
  by code_simp

text \<open>
  Claim C8, as the code has it. For a rule whose maximum length is not negative: when
  \<^verbatim>\<open>parseField\<close> returns \<open>v\<close>, and \<open>v\<close> does not end in a whitespace character and
  has no surrogate outside a pair (so that a form can hold \<open>v\<close> as it is), then
  \<^verbatim>\<open>parseField\<close> on \<open>v\<close> with the same rule returns \<open>v\<close>. The returned value has
  both properties whenever the normalized input is no longer than the maximum length,
  that is whenever nothing was cut off.
\<close>

theorem parseField_idempotent:
  "(parseField fd key opts = Inr v \<and> (case maxLength opts of Some m \<Rightarrow> 0 \<le> m | None \<Rightarrow> True) \<and>
    \<not> is_space (last v) \<and> well_formed v
      \<longrightarrow> parseField ((key, Text v) # fd') key opts = Inr v) \<and>
   (parseField fd key opts = Inr v \<and> fd_get fd key = Some raw \<and> well_formed (toString raw) \<and>
    int (length (normalized (toString raw))) \<le> (case maxLength opts of Some m \<Rightarrow> m | None \<Rightarrow> 180)
      \<longrightarrow> \<not> is_space (last v) \<and> well_formed v)"
proof (intro conjI impI)
  let ?n = "case maxLength opts of Some m \<Rightarrow> m | None \<Rightarrow> 180"
  assume a: "parseField fd key opts = Inr v \<and> (case maxLength opts of Some m \<Rightarrow> 0 \<le> m | None \<Rightarrow> True) \<and>
    \<not> is_space (last v) \<and> well_formed v"
  then obtain r where r: "v \<noteq> []" "v = sanitizeText (toString r) ?n"
      "case pattern opts of Some p \<Rightarrow> p v | None \<Rightarrow> True"
    using parseField_Inr [of fd key opts v] by blast
  from a have "0 \<le> ?n" by (simp split: option.splits)
  with r a have "sanitizeText v ?n = v"
    by (intro sanitizeText_again [of v "toString r" ?n]) simp_all
  with r show "parseField ((key, Text v) # fd') key opts = Inr v"
    by (intro parseField_Text)
next
  let ?n = "case maxLength opts of Some m \<Rightarrow> m | None \<Rightarrow> 180"
  assume a: "parseField fd key opts = Inr v \<and> fd_get fd key = Some raw \<and>
    well_formed (toString raw) \<and> int (length (normalized (toString raw))) \<le> ?n"
  then have "v \<noteq> []" "v = sanitizeText (toString raw) ?n"
    using parseField_Inr [of fd key opts v] by auto
  with a have v: "v = normalized (toString raw)" "normalized (toString raw) \<noteq> []"
    by (simp_all add: sanitizeText_def slice0_fits)
  then show "\<not> is_space (last v)"
    using normalized_ends [of "toString raw"] by simp
  from a v show "well_formed v"
    by (simp add: well_formed_normalized)
qed

theorem parseField_idempotent_witness:
  "parseField [(js ''father_phone'', Text (js '' +57 (300)  123-4567 ''))] (js ''father_phone'')
      \<lparr>maxLength = Some 20, pattern = Some phonePattern, label = Some (js ''celular del padre'')\<rparr>
     = Inr (js ''+57 (300) 123-4567'') \<and>
   parseField [(js ''father_phone'', Text (js ''+57 (300) 123-4567''))] (js ''father_phone'')
      \<lparr>maxLength = Some 20, pattern = Some phonePattern, label = Some (js ''celular del padre'')\<rparr>
     = Inr (js ''+57 (300) 123-4567'') \<and>
   \<not> is_space (last (js ''+57 (300) 123-4567'')) \<and>
   well_formed (js '' +57 (300)  123-4567 '') \<and> well_formed (js ''+57 (300) 123-4567'')"
proof -
  let ?o = "\<lparr>maxLength = Some 20, pattern = Some phonePattern, label = Some (js ''celular del padre'')\<rparr>"
  let ?fd = "[(js ''father_phone'', Text (js '' +57 (300)  123-4567 ''))]"
  have p: "parseField ?fd (js ''father_phone'') ?o = Inr (js ''+57 (300) 123-4567'')"
    by code_simp
  have n: "int (length (normalized (toString (Text (js '' +57 (300)  123-4567 ''))))) \<le> 20"
    by code_simp
  have g: "fd_get ?fd (js ''father_phone'') = Some (Text (js '' +57 (300)  123-4567 ''))"
    by simp
  have wr: "well_formed (js '' +57 (300)  123-4567 '')"
    by code_simp
  have l: "\<not> is_space (last (js ''+57 (300) 123-4567'')) \<and> well_formed (js ''+57 (300) 123-4567'')"
    using parseField_idempotent [where fd = ?fd and key = "js ''father_phone''" and opts = ?o
        and v = "js ''+57 (300) 123-4567''" and raw = "Text (js '' +57 (300)  123-4567 '')"] p n g wr
    by simp
  have "parseField ((js ''father_phone'', Text (js ''+57 (300) 123-4567'')) # [])
      (js ''father_phone'') ?o = Inr (js ''+57 (300) 123-4567'')"
    using parseField_idempotent [where fd = ?fd and key = "js ''father_phone''" and opts = ?o
        and v = "js ''+57 (300) 123-4567''" and fd' = "[]"] p l
    by simp
  with p l wr show ?thesis by simp
qed

theorem parseField_idempotent_counterexample:
  "parseField [(js ''father_phone'', Text (js ''1234567890123456789 1''))] (js ''father_phone'')
      \<lparr>maxLength = Some 20, pattern = Some phonePattern, label = Some (js ''celular del padre'')\<rparr>
     = Inr (js ''1234567890123456789 '') \<and>
   parseField [(js ''father_phone'', Text (js ''1234567890123456789 ''))] (js ''father_phone'')
      \<lparr>maxLength = Some 20, pattern = Some phonePattern, label = Some (js ''celular del padre'')\<rparr>
     = Inr (js ''1234567890123456789'') \<and>
   js ''1234567890123456789'' \<noteq> js ''1234567890123456789 ''"
  by code_simp

section \<open>Properties of the handler\<close>

lemma bindE_simps:
  "bindE (Inl e) k = Inl e"
  "bindE (Inr v) k = k v"
  by (simp_all add: bindE_def)

lemma first_failure_index:
  "i < length rs \<Longrightarrow> \<forall>j<i. \<not> isl (rs ! j) \<Longrightarrow> rs ! i = Inl e \<Longrightarrow> first_failure rs = Some e"
proof (induction rs arbitrary: i rule: first_failure.induct)
  case 1
  then show ?case by simp
next
  case (2 e' rs)
  then show ?case by (cases i) auto
next
  case (3 v rs)
  show ?case
  proof (cases i)
    case 0
    with 3 show ?thesis by simp
  next
    case (Suc k)
    with 3(2,3,4) have "k < length rs" "\<forall>j<k. \<not> isl (rs ! j)" "rs ! k = Inl e"
      by auto
    then show ?thesis using 3(1) by simp
  qed
qed

lemma first_failure_None: "first_failure rs = None \<longleftrightarrow> (\<forall>r\<in>set rs. \<not> isl r)"
  by (induction rs rule: first_failure.induct) auto

lemma first_failure_in: "first_failure rs = Some e \<Longrightarrow> Inl e \<in> set rs"
  by (induction rs rule: first_failure.induct) auto

lemma chain_fails:
  "first_failure [r1, r2, r3, r4, r5, r6, r7, r8, r9, r10, r11, r12, r13, r14, r15, r16, r17, r18, r19] = Some e \<Longrightarrow>
   bindE r1 (\<lambda>v1. bindE r2 (\<lambda>v2. bindE r3 (\<lambda>v3. bindE r4 (\<lambda>v4. bindE r5 (\<lambda>v5. bindE r6 (\<lambda>v6. bindE r7 (\<lambda>v7. bindE r8 (\<lambda>v8. bindE r9 (\<lambda>v9. bindE r10 (\<lambda>v10. bindE r11 (\<lambda>v11. bindE r12 (\<lambda>v12. bindE r13 (\<lambda>v13. bindE r14 (\<lambda>v14. bindE r15 (\<lambda>v15. bindE r16 (\<lambda>v16. bindE r17 (\<lambda>v17. bindE r18 (\<lambda>v18. bindE r19 (\<lambda>v19. F v1 v2 v3 v4 v5 v6 v7 v8 v9 v10 v11 v12 v13 v14 v15 v16 v17 v18 v19))))))))))))))))))) = Inl e"
  by (cases r1; simp add: bindE_simps; cases r2; simp add: bindE_simps; cases r3; simp add: bindE_simps; cases r4; simp add: bindE_simps; cases r5; simp add: bindE_simps; cases r6; simp add: bindE_simps; cases r7; simp add: bindE_simps; cases r8; simp add: bindE_simps; cases r9; simp add: bindE_simps; cases r10; simp add: bindE_simps; cases r11; simp add: bindE_simps; cases r12; simp add: bindE_simps; cases r13; simp add: bindE_simps; cases r14; simp add: bindE_simps; cases r15; simp add: bindE_simps; cases r16; simp add: bindE_simps; cases r17; simp add: bindE_simps; cases r18; simp add: bindE_simps; cases r19; simp add: bindE_simps)

lemma chain_passes:
  "first_failure [r1, r2, r3, r4, r5, r6, r7, r8, r9, r10, r11, r12, r13, r14, r15, r16, r17, r18, r19] = None \<Longrightarrow>
   bindE r1 (\<lambda>v1. bindE r2 (\<lambda>v2. bindE r3 (\<lambda>v3. bindE r4 (\<lambda>v4. bindE r5 (\<lambda>v5. bindE r6 (\<lambda>v6. bindE r7 (\<lambda>v7. bindE r8 (\<lambda>v8. bindE r9 (\<lambda>v9. bindE r10 (\<lambda>v10. bindE r11 (\<lambda>v11. bindE r12 (\<lambda>v12. bindE r13 (\<lambda>v13. bindE r14 (\<lambda>v14. bindE r15 (\<lambda>v15. bindE r16 (\<lambda>v16. bindE r17 (\<lambda>v17. bindE r18 (\<lambda>v18. bindE r19 (\<lambda>v19. F v1 v2 v3 v4 v5 v6 v7 v8 v9 v10 v11 v12 v13 v14 v15 v16 v17 v18 v19))))))))))))))))))) = F (projr r1) (projr r2) (projr r3) (projr r4) (projr r5) (projr r6) (projr r7) (projr r8) (projr r9) (projr r10) (projr r11) (projr r12) (projr r13) (projr r14) (projr r15) (projr r16) (projr r17) (projr r18) (projr r19)"
  by (cases r1; simp add: bindE_simps; cases r2; simp add: bindE_simps; cases r3; simp add: bindE_simps; cases r4; simp add: bindE_simps; cases r5; simp add: bindE_simps; cases r6; simp add: bindE_simps; cases r7; simp add: bindE_simps; cases r8; simp add: bindE_simps; cases r9; simp add: bindE_simps; cases r10; simp add: bindE_simps; cases r11; simp add: bindE_simps; cases r12; simp add: bindE_simps; cases r13; simp add: bindE_simps; cases r14; simp add: bindE_simps; cases r15; simp add: bindE_simps; cases r16; simp add: bindE_simps; cases r17; simp add: bindE_simps; cases r18; simp add: bindE_simps; cases r19; simp add: bindE_simps)


lemma first_failure_witness:
  "first_failure rs = Some e \<Longrightarrow>
   \<exists>i<length rs. (\<forall>j<i. \<not> isl (rs ! j)) \<and> rs ! i = Inl e"
proof (induction rs rule: first_failure.induct)
  case 1
  then show ?case by simp
next
  case (2 e' rs)
  then show ?case by (intro exI [of _ 0]) simp
next
  case (3 v rs)
  then obtain i where i: "i < length rs" "\<forall>j<i. \<not> isl (rs ! j)" "rs ! i = Inl e"
    by auto
  have "\<forall>j<Suc i. \<not> isl ((Inr v # rs) ! j)"
  proof (intro allI impI)
    fix j assume "j < Suc i"
    with i(2) show "\<not> isl ((Inr v # rs) ! j)" by (cases j) auto
  qed
  with i show ?case by (intro exI [of _ "Suc i"]) simp
qed

lemma parseSubmission_fails:
  "first_failure (map (\<lambda>(k, opts). parseField fd k opts) field_order) = Some e \<Longrightarrow>
   parseSubmission fd = Inl e"
  unfolding parseSubmission_def field_order_def list.map prod.case
  by (rule chain_fails)

lemma parseSubmission_services_fail:
  "first_failure (map (\<lambda>(k, opts). parseField fd k opts) field_order) = None \<Longrightarrow>
   parseServices fd = Inl e \<Longrightarrow> parseSubmission fd = Inl e"
  unfolding parseSubmission_def field_order_def list.map prod.case
  by (subst chain_passes) (simp_all add: bindE_simps)

lemma parseSubmission_passes:
  "first_failure (map (\<lambda>(k, opts). parseField fd k opts) field_order) = None \<Longrightarrow>
   parseServices fd = Inr u \<Longrightarrow> \<exists>r. parseSubmission fd = Inr r \<and> service_options r = u"
  unfolding parseSubmission_def field_order_def list.map prod.case
  by (subst chain_passes) (simp_all add: bindE_simps)

lemma parseSubmission_Inr_iff:
  "(\<exists>r. parseSubmission fd = Inr r) \<longleftrightarrow>
   (\<forall>(k, opts)\<in>set field_order. \<not> isl (parseField fd k opts)) \<and> \<not> isl (parseServices fd)"
proof -
  let ?rs = "map (\<lambda>(k, opts). parseField fd k opts) field_order"
  have all: "(\<forall>(k, opts)\<in>set field_order. \<not> isl (parseField fd k opts)) \<longleftrightarrow> first_failure ?rs = None"
    by (auto simp: first_failure_None)
  show ?thesis
  proof (cases "first_failure ?rs")
    case (Some e)
    then have "parseSubmission fd = Inl e" by (rule parseSubmission_fails)
    with Some all show ?thesis by simp
  next
    case None
    show ?thesis
    proof (cases "parseServices fd")
      case (Inl e)
      with None have "parseSubmission fd = Inl e" by (intro parseSubmission_services_fail)
      with Inl show ?thesis by simp
    next
      case (Inr u)
      with None have "\<exists>r. parseSubmission fd = Inr r" using parseSubmission_passes by blast
      with Inr None all show ?thesis by simp
    qed
  qed
qed

lemma parseField_error:
  "parseField fd key opts = Inl e \<Longrightarrow>
   e = required_error (label_of key opts) \<or> e = format_error (label_of key opts)"
  by (auto simp: parseField_def Let_def split: option.splits if_splits)

lemma parseField_status: "parseField fd key opts = Inl e \<Longrightarrow> status e = 400"
  by (auto dest: parseField_error simp: required_error_def format_error_def)

lemma parseServices_status: "parseServices fd = Inl e \<Longrightarrow> status e = 400"
  by (auto simp: parseServices_def Let_def services_error_def split: if_splits)

lemma parseSubmission_status: "parseSubmission fd = Inl e \<Longrightarrow> status e = 400"
proof -
  assume a: "parseSubmission fd = Inl e"
  let ?rs = "map (\<lambda>(k, opts). parseField fd k opts) field_order"
  show ?thesis
  proof (cases "first_failure ?rs")
    case (Some e')
    then have "parseSubmission fd = Inl e'" by (rule parseSubmission_fails)
    with a have "e' = e" by simp
    with first_failure_in [OF Some] have "Inl e \<in> set ?rs" by simp
    then obtain k opts where "parseField fd k opts = Inl e" by auto
    then show ?thesis by (rule parseField_status)
  next
    case None
    show ?thesis
    proof (cases "parseServices fd")
      case (Inl e')
      with None have "parseSubmission fd = Inl e'" by (intro parseSubmission_services_fail)
      with a Inl show ?thesis by (simp add: parseServices_status)
    next
      case (Inr u)
      with None a show ?thesis using parseSubmission_passes [of fd u] by auto
    qed
  qed
qed

lemma POST_invalid:
  "fst (enforceRateLimit now (getClientId (req_headers req)) (rateLimitStore w)) = Inr () \<Longrightarrow>
   req_formData req = Some fd \<Longrightarrow> parseSubmission fd = Inl e \<Longrightarrow>
   fst (POST now store_insert req w) =
     \<lparr>http_status = status e, body_success = False, body_message = None,
      body_error = Some (message e)\<rparr> \<and>
   inserted (snd (POST now store_insert req w)) = inserted w"
  by (cases "enforceRateLimit now (getClientId (req_headers req)) (rateLimitStore w)")
     (simp add: POST_def catch_block_def Let_def)

lemma POST_store_error:
  "fst (enforceRateLimit now (getClientId (req_headers req)) (rateLimitStore w)) = Inr () \<Longrightarrow>
   req_formData req = Some fd \<Longrightarrow> parseSubmission fd = Inr r \<Longrightarrow>
   store_insert r = Resolved (Some d) \<Longrightarrow>
   fst (POST now store_insert req w) =
     \<lparr>http_status = 500, body_success = False, body_message = None,
      body_error = Some internal_error_message\<rparr> \<and>
   console (snd (POST now store_insert req w)) =
     console w @ [SupabaseInsertError d,
                  ApiError (PlainError (js ''No se pudo guardar el formulario.''))] \<and>
   inserted (snd (POST now store_insert req w)) = inserted w @ [r]"
  by (cases "enforceRateLimit now (getClientId (req_headers req)) (rateLimitStore w)")
     (simp add: POST_def catch_block_def Let_def)

lemma POST_store_rejected:
  "fst (enforceRateLimit now (getClientId (req_headers req)) (rateLimitStore w)) = Inr () \<Longrightarrow>
   req_formData req = Some fd \<Longrightarrow> parseSubmission fd = Inr r \<Longrightarrow>
   store_insert r = Rejected d \<Longrightarrow>
   fst (POST now store_insert req w) =
     \<lparr>http_status = 500, body_success = False, body_message = None,
      body_error = Some internal_error_message\<rparr> \<and>
   console (snd (POST now store_insert req w)) = console w @ [ApiError (StoreRejected d)] \<and>
   inserted (snd (POST now store_insert req w)) = inserted w @ [r]"
  by (cases "enforceRateLimit now (getClientId (req_headers req)) (rateLimitStore w)")
     (simp add: POST_def catch_block_def Let_def)

lemma POST_store_ok:
  "fst (enforceRateLimit now (getClientId (req_headers req)) (rateLimitStore w)) = Inr () \<Longrightarrow>
   req_formData req = Some fd \<Longrightarrow> parseSubmission fd = Inr r \<Longrightarrow>
   store_insert r = Resolved None \<Longrightarrow>
   fst (POST now store_insert req w) =
     \<lparr>http_status = 200, body_success = True,
      body_message = Some (js ''Formulario enviado correctamente''), body_error = None\<rparr> \<and>
   console (snd (POST now store_insert req w)) = console w \<and>
   inserted (snd (POST now store_insert req w)) = inserted w @ [r]"
  by (cases "enforceRateLimit now (getClientId (req_headers req)) (rateLimitStore w)")
     (simp add: POST_def Let_def)

lemma POST_inserted:
  "inserted (snd (POST now store_insert req w)) =
   inserted w @
     (case (fst (enforceRateLimit now (getClientId (req_headers req)) (rateLimitStore w)),
            req_formData req) of
        (Inr _, Some fd) \<Rightarrow> (case parseSubmission fd of Inr r \<Rightarrow> [r] | Inl _ \<Rightarrow> [])
      | _ \<Rightarrow> [])"
  by (cases "enforceRateLimit now (getClientId (req_headers req)) (rateLimitStore w)")
     (simp add: POST_def catch_block_def Let_def
        split: sum.splits option.splits insert_outcome.splits)

lemma first_failure_field:
  assumes "first_failure (map (\<lambda>(k, opts). parseField fd k opts) field_order) = Some e"
  shows "\<exists>i<length field_order.
      (\<forall>j<i. \<not> isl (parseField fd (fst (field_order ! j)) (snd (field_order ! j)))) \<and>
      parseField fd (fst (field_order ! i)) (snd (field_order ! i)) = Inl e"
proof -
  let ?rs = "map (\<lambda>(k, opts). parseField fd k opts) field_order"
  have nth: "?rs ! j = parseField fd (fst (field_order ! j)) (snd (field_order ! j))"
    if "j < length field_order" for j
    using that by (simp add: case_prod_beta)
  from first_failure_witness [OF assms]
  obtain i where i: "i < length ?rs" "\<forall>j<i. \<not> isl (?rs ! j)" "?rs ! i = Inl e"
    by blast
  from i(1) have l: "i < length field_order" by simp
  have "\<forall>j<i. \<not> isl (parseField fd (fst (field_order ! j)) (snd (field_order ! j)))"
  proof (intro allI impI)
    fix j assume j: "j < i"
    with l have jl: "j < length field_order" by simp
    from i(2) j have "\<not> isl (?rs ! j)" by blast
    then show "\<not> isl (parseField fd (fst (field_order ! j)) (snd (field_order ! j)))"
      by (simp only: nth [OF jl] simp_thms)
  qed
  moreover from i(3)
  have "parseField fd (fst (field_order ! i)) (snd (field_order ! i)) = Inl e"
    by (simp only: nth [OF l] simp_thms)
  ultimately show ?thesis using l by blast
qed

text \<open>
  Claim C3, as the code has it. The order of the validation is the order of the
  handler's \<^verbatim>\<open>parseField\<close> calls (\<open>field_order\<close>), not the order of the table of the
  specification. For a request that the rate limiter admits and whose body is a form:
  when a field fails in \<^verbatim>\<open>parseField\<close> and every field before it in the order of the
  calls passes, the response is that field's \<^verbatim>\<open>ClientError\<close> (its "required" or its
  "format" error) with status 400, and nothing is handed to the store's
  \<^verbatim>\<open>insert\<close>; the same holds when all fields pass and \<^verbatim>\<open>parseServices\<close> fails. A
  request hands at most one record to \<^verbatim>\<open>insert\<close>, and it hands one exactly when it is
  admitted, its body is a form, and every field and the service options pass.
\<close>

theorem POST_fail_fast:
  "(fst (enforceRateLimit now (getClientId (req_headers req)) (rateLimitStore w)) = Inr () \<and>
    req_formData req = Some fd \<and> i < length field_order \<and>
    (\<forall>j<i. \<not> isl (parseField fd (fst (field_order ! j)) (snd (field_order ! j)))) \<and>
    parseField fd (fst (field_order ! i)) (snd (field_order ! i)) = Inl e
    \<longrightarrow> fst (POST now store_insert req w) =
          \<lparr>http_status = 400, body_success = False, body_message = None,
           body_error = Some (message e)\<rparr> \<and>
        (e = required_error (label_of (fst (field_order ! i)) (snd (field_order ! i))) \<or>
         e = format_error (label_of (fst (field_order ! i)) (snd (field_order ! i)))) \<and>
        inserted (snd (POST now store_insert req w)) = inserted w) \<and>
   (fst (enforceRateLimit now (getClientId (req_headers req)) (rateLimitStore w)) = Inr () \<and>
    req_formData req = Some fd \<and>
    (\<forall>(k, opts)\<in>set field_order. \<not> isl (parseField fd k opts)) \<and> parseServices fd = Inl e
    \<longrightarrow> fst (POST now store_insert req w) =
          \<lparr>http_status = 400, body_success = False, body_message = None,
           body_error = Some (message e)\<rparr> \<and>
        inserted (snd (POST now store_insert req w)) = inserted w) \<and>
   (inserted (snd (POST now store_insert req w)) = inserted w \<or>
    (\<exists>r. inserted (snd (POST now store_insert req w)) = inserted w @ [r])) \<and>
   ((\<exists>r. inserted (snd (POST now store_insert req w)) = inserted w @ [r]) \<longleftrightarrow>
    fst (enforceRateLimit now (getClientId (req_headers req)) (rateLimitStore w)) = Inr () \<and>
    (\<exists>fd'. req_formData req = Some fd' \<and>
       (\<forall>(k, opts)\<in>set field_order. \<not> isl (parseField fd' k opts)) \<and>
       \<not> isl (parseServices fd')))"
proof (intro conjI)
  let ?admit = "fst (enforceRateLimit now (getClientId (req_headers req)) (rateLimitStore w))"
  show "?admit = Inr () \<and> req_formData req = Some fd \<and> i < length field_order \<and>
    (\<forall>j<i. \<not> isl (parseField fd (fst (field_order ! j)) (snd (field_order ! j)))) \<and>
    parseField fd (fst (field_order ! i)) (snd (field_order ! i)) = Inl e
    \<longrightarrow> fst (POST now store_insert req w) =
          \<lparr>http_status = 400, body_success = False, body_message = None,
           body_error = Some (message e)\<rparr> \<and>
        (e = required_error (label_of (fst (field_order ! i)) (snd (field_order ! i))) \<or>
         e = format_error (label_of (fst (field_order ! i)) (snd (field_order ! i)))) \<and>
        inserted (snd (POST now store_insert req w)) = inserted w"
  proof (intro impI)
    let ?rs = "map (\<lambda>(k, opts). parseField fd k opts) field_order"
    assume a: "?admit = Inr () \<and> req_formData req = Some fd \<and> i < length field_order \<and>
      (\<forall>j<i. \<not> isl (parseField fd (fst (field_order ! j)) (snd (field_order ! j)))) \<and>
      parseField fd (fst (field_order ! i)) (snd (field_order ! i)) = Inl e"
    then have "i < length ?rs" "\<forall>j<i. \<not> isl (?rs ! j)" "?rs ! i = Inl e"
      by (simp_all add: case_prod_beta)
    then have "first_failure ?rs = Some e" by (rule first_failure_index)
    then have p: "parseSubmission fd = Inl e" by (rule parseSubmission_fails)
    from a have "status e = 400" by (auto dest: parseField_status)
    with a p POST_invalid [of now req w fd e store_insert] parseField_error
    show "fst (POST now store_insert req w) =
          \<lparr>http_status = 400, body_success = False, body_message = None,
           body_error = Some (message e)\<rparr> \<and>
        (e = required_error (label_of (fst (field_order ! i)) (snd (field_order ! i))) \<or>
         e = format_error (label_of (fst (field_order ! i)) (snd (field_order ! i)))) \<and>
        inserted (snd (POST now store_insert req w)) = inserted w"
      by auto
  qed
  show "?admit = Inr () \<and> req_formData req = Some fd \<and>
    (\<forall>(k, opts)\<in>set field_order. \<not> isl (parseField fd k opts)) \<and> parseServices fd = Inl e
    \<longrightarrow> fst (POST now store_insert req w) =
          \<lparr>http_status = 400, body_success = False, body_message = None,
           body_error = Some (message e)\<rparr> \<and>
        inserted (snd (POST now store_insert req w)) = inserted w"
  proof (intro impI)
    let ?rs = "map (\<lambda>(k, opts). parseField fd k opts) field_order"
    assume a: "?admit = Inr () \<and> req_formData req = Some fd \<and>
      (\<forall>(k, opts)\<in>set field_order. \<not> isl (parseField fd k opts)) \<and> parseServices fd = Inl e"
    then have "first_failure ?rs = None" by (auto simp: first_failure_None)
    with a have p: "parseSubmission fd = Inl e" by (intro parseSubmission_services_fail) simp_all
    from a have "status e = 400" by (auto dest: parseServices_status)
    with a p POST_invalid [of now req w fd e store_insert]
    show "fst (POST now store_insert req w) =
          \<lparr>http_status = 400, body_success = False, body_message = None,
           body_error = Some (message e)\<rparr> \<and>
        inserted (snd (POST now store_insert req w)) = inserted w"
      by simp
  qed
  show "inserted (snd (POST now store_insert req w)) = inserted w \<or>
    (\<exists>r. inserted (snd (POST now store_insert req w)) = inserted w @ [r])"
    by (simp add: POST_inserted split: sum.splits option.splits)
  show "(\<exists>r. inserted (snd (POST now store_insert req w)) = inserted w @ [r]) \<longleftrightarrow>
    ?admit = Inr () \<and>
    (\<exists>fd'. req_formData req = Some fd' \<and>
       (\<forall>(k, opts)\<in>set field_order. \<not> isl (parseField fd' k opts)) \<and>
       \<not> isl (parseServices fd'))"
  proof -
    have "(\<exists>r. inserted (snd (POST now store_insert req w)) = inserted w @ [r]) \<longleftrightarrow>
      ?admit = Inr () \<and> (\<exists>fd'. req_formData req = Some fd' \<and> (\<exists>r. parseSubmission fd' = Inr r))"
      by (auto simp: POST_inserted split: sum.splits option.splits)
    then show ?thesis by (simp only: parseSubmission_Inr_iff)
  qed
qed

theorem POST_fail_fast_witness:
  "fst (POST 0 (\<lambda>r. Resolved None)
      \<lparr>req_headers = Map.empty,
       req_formData = Some (filter (\<lambda>x. fst x \<noteq> js ''father_email'') example_form)\<rparr>
      \<lparr>rateLimitStore = Map.empty, inserted = [], console = ([] :: jstring log_entry list)\<rparr>) =
     \<lparr>http_status = 400, body_success = False, body_message = None,
      body_error = Some (js ''El campo email del padre es obligatorio.'')\<rparr> \<and>
   inserted (snd (POST 0 (\<lambda>r. Resolved None)
      \<lparr>req_headers = Map.empty,
       req_formData = Some (filter (\<lambda>x. fst x \<noteq> js ''father_email'') example_form)\<rparr>
      \<lparr>rateLimitStore = Map.empty, inserted = [], console = ([] :: jstring log_entry list)\<rparr>)) = []"
proof -
  let ?fd = "filter (\<lambda>x. fst x \<noteq> js ''father_email'') example_form"
  let ?req = "\<lparr>req_headers = Map.empty, req_formData = Some ?fd\<rparr>"
  let ?w = "\<lparr>rateLimitStore = Map.empty, inserted = [], console = ([] :: jstring log_entry list)\<rparr>"
  let ?rs = "map (\<lambda>(k, opts). parseField ?fd k opts) field_order"
  let ?e = "required_error (js ''email del padre'')"
  have "first_failure ?rs = Some ?e"
    by code_simp
  then obtain i where h: "i < length field_order"
      "\<forall>j<i. \<not> isl (parseField ?fd (fst (field_order ! j)) (snd (field_order ! j)))"
      "parseField ?fd (fst (field_order ! i)) (snd (field_order ! i)) = Inl ?e"
    using first_failure_field [of ?fd ?e] by blast
  have adm: "fst (enforceRateLimit 0 (getClientId (req_headers ?req)) (rateLimitStore ?w)) = Inr ()"
    by (simp add: enforceRateLimit_def)
  have fdq: "req_formData ?req = Some ?fd"
    by simp
  have m: "message ?e = js ''El campo email del padre es obligatorio.''"
    by (simp add: required_error_def js_def)
  have w0: "inserted ?w = []"
    by simp
  note imp = POST_fail_fast [where now = 0 and req = ?req and w = ?w and fd = ?fd and i = i
        and e = ?e and store_insert = "\<lambda>r. Resolved None", THEN conjunct1]
  have "fst (POST 0 (\<lambda>r. Resolved None) ?req ?w) =
          \<lparr>http_status = 400, body_success = False, body_message = None,
           body_error = Some (message ?e)\<rparr> \<and>
        (?e = required_error (label_of (fst (field_order ! i)) (snd (field_order ! i))) \<or>
         ?e = format_error (label_of (fst (field_order ! i)) (snd (field_order ! i)))) \<and>
        inserted (snd (POST 0 (\<lambda>r. Resolved None) ?req ?w)) = inserted ?w"
    using adm fdq h by (intro imp [THEN mp] conjI)
  then show ?thesis
    by (simp only: m w0 simp_thms)
qed

text \<open>
  In the order of the specification's table \<^verbatim>\<open>father_name\<close> comes before
  \<^verbatim>\<open>grade\<close>; the handler validates \<^verbatim>\<open>grade\<close> first. For a form that lacks both,
  the first failing field of the table is \<^verbatim>\<open>father_name\<close>, and the handler answers
  with the error of \<^verbatim>\<open>grade\<close>.
\<close>

theorem POST_table_order_counterexample:
  "first_failure (map (\<lambda>(k, opts).
       parseField (filter (\<lambda>x. fst x \<noteq> js ''grade'' \<and> fst x \<noteq> js ''father_name'') example_form) k opts)
     spec_table_order) = Some (required_error (js ''nombre del padre'')) \<and>
   fst (POST 0 (\<lambda>r. Resolved None)
      \<lparr>req_headers = Map.empty,
       req_formData = Some (filter (\<lambda>x. fst x \<noteq> js ''grade'' \<and> fst x \<noteq> js ''father_name'')
                              example_form)\<rparr>
      \<lparr>rateLimitStore = Map.empty, inserted = [], console = ([] :: jstring log_entry list)\<rparr>) =
     \<lparr>http_status = 400, body_success = False, body_message = None,
      body_error = Some (message (required_error (js ''grado a cursar'')))\<rparr> \<and>
   required_error (js ''grado a cursar'') \<noteq> required_error (js ''nombre del padre'')"
proof -
  let ?fd = "filter (\<lambda>x. fst x \<noteq> js ''grade'' \<and> fst x \<noteq> js ''father_name'') example_form"
  let ?req = "\<lparr>req_headers = Map.empty, req_formData = Some ?fd\<rparr>"
  let ?w = "\<lparr>rateLimitStore = Map.empty, inserted = [], console = ([] :: jstring log_entry list)\<rparr>"
  let ?e = "required_error (js ''grado a cursar'')"
  have table: "first_failure (map (\<lambda>(k, opts). parseField ?fd k opts) spec_table_order)
      = Some (required_error (js ''nombre del padre''))"
    by code_simp
  have "first_failure (map (\<lambda>(k, opts). parseField ?fd k opts) field_order) = Some ?e"
    by code_simp
  then have p: "parseSubmission ?fd = Inl ?e"
    by (rule parseSubmission_fails)
  have adm: "fst (enforceRateLimit 0 (getClientId (req_headers ?req)) (rateLimitStore ?w)) = Inr ()"
    by (simp add: enforceRateLimit_def)
  have fdq: "req_formData ?req = Some ?fd"
    by simp
  have st: "status ?e = 400"
    by (simp add: required_error_def)
  have "fst (POST 0 (\<lambda>r. Resolved None) ?req ?w) =
     \<lparr>http_status = status ?e, body_success = False, body_message = None,
      body_error = Some (message ?e)\<rparr>"
    using POST_invalid [OF adm fdq p] by (rule conjunct1)
  then have post: "fst (POST 0 (\<lambda>r. Resolved None) ?req ?w) =
     \<lparr>http_status = 400, body_success = False, body_message = None,
      body_error = Some (message ?e)\<rparr>"
    by (simp only: st)
  have ne: "?e \<noteq> required_error (js ''nombre del padre'')"
    by (simp add: required_error_def js_def)
  from table post ne show ?thesis
    by (intro conjI)
qed

text \<open>
  Claim C9. For an admitted request whose form passes all validation: when the
  store's \<^verbatim>\<open>insert\<close> reports an error, whatever it is, the response has status 500
  and the one fixed message, in which the store's error does not occur, and the store's
  error is written to the console; when \<^verbatim>\<open>insert\<close> reports no error, the response has
  status 200 and \<^verbatim>\<open>success\<close> true. A rejected \<^verbatim>\<open>insert\<close> gives the fixed 500 response
  as well.
\<close>

theorem POST_store_outcome:
  "(fst (enforceRateLimit now (getClientId (req_headers req)) (rateLimitStore w)) = Inr () \<and>
    req_formData req = Some fd \<and> parseSubmission fd = Inr r \<and>
    store_insert r = Resolved (Some d)
    \<longrightarrow> fst (POST now store_insert req w) =
          \<lparr>http_status = 500, body_success = False, body_message = None,
           body_error = Some internal_error_message\<rparr> \<and>
        console (snd (POST now store_insert req w)) =
          console w @ [SupabaseInsertError d,
                       ApiError (PlainError (js ''No se pudo guardar el formulario.''))]) \<and>
   (fst (enforceRateLimit now (getClientId (req_headers req)) (rateLimitStore w)) = Inr () \<and>
    req_formData req = Some fd \<and> parseSubmission fd = Inr r \<and>
    store_insert r = Rejected d
    \<longrightarrow> fst (POST now store_insert req w) =
          \<lparr>http_status = 500, body_success = False, body_message = None,
           body_error = Some internal_error_message\<rparr> \<and>
        console (snd (POST now store_insert req w)) = console w @ [ApiError (StoreRejected d)]) \<and>
   (fst (enforceRateLimit now (getClientId (req_headers req)) (rateLimitStore w)) = Inr () \<and>
    req_formData req = Some fd \<and> parseSubmission fd = Inr r \<and>
    store_insert r = Resolved None
    \<longrightarrow> fst (POST now store_insert req w) =
          \<lparr>http_status = 200, body_success = True,
           body_message = Some (js ''Formulario enviado correctamente''), body_error = None\<rparr> \<and>
        console (snd (POST now store_insert req w)) = console w) \<and>
   ((\<exists>r. parseSubmission fd = Inr r) \<longleftrightarrow>
    (\<forall>(k, opts)\<in>set field_order. \<not> isl (parseField fd k opts)) \<and> \<not> isl (parseServices fd))"
proof (intro conjI impI)
  assume "fst (enforceRateLimit now (getClientId (req_headers req)) (rateLimitStore w)) = Inr () \<and>
    req_formData req = Some fd \<and> parseSubmission fd = Inr r \<and> store_insert r = Resolved (Some d)"
  then have "fst (POST now store_insert req w) =
     \<lparr>http_status = 500, body_success = False, body_message = None,
      body_error = Some internal_error_message\<rparr> \<and>
   console (snd (POST now store_insert req w)) =
     console w @ [SupabaseInsertError d,
                  ApiError (PlainError (js ''No se pudo guardar el formulario.''))] \<and>
   inserted (snd (POST now store_insert req w)) = inserted w @ [r]"
    using POST_store_error [of now req w fd r store_insert d] by blast
  then show "fst (POST now store_insert req w) =
          \<lparr>http_status = 500, body_success = False, body_message = None,
           body_error = Some internal_error_message\<rparr>"
    and "console (snd (POST now store_insert req w)) =
          console w @ [SupabaseInsertError d,
                       ApiError (PlainError (js ''No se pudo guardar el formulario.''))]"
    by simp_all
next
  assume "fst (enforceRateLimit now (getClientId (req_headers req)) (rateLimitStore w)) = Inr () \<and>
    req_formData req = Some fd \<and> parseSubmission fd = Inr r \<and> store_insert r = Rejected d"
  then have "fst (POST now store_insert req w) =
     \<lparr>http_status = 500, body_success = False, body_message = None,
      body_error = Some internal_error_message\<rparr> \<and>
   console (snd (POST now store_insert req w)) = console w @ [ApiError (StoreRejected d)] \<and>
   inserted (snd (POST now store_insert req w)) = inserted w @ [r]"
    using POST_store_rejected [of now req w fd r store_insert d] by blast
  then show "fst (POST now store_insert req w) =
          \<lparr>http_status = 500, body_success = False, body_message = None,
           body_error = Some internal_error_message\<rparr>"
    and "console (snd (POST now store_insert req w)) = console w @ [ApiError (StoreRejected d)]"
    by simp_all
next
  assume "fst (enforceRateLimit now (getClientId (req_headers req)) (rateLimitStore w)) = Inr () \<and>
    req_formData req = Some fd \<and> parseSubmission fd = Inr r \<and> store_insert r = Resolved None"
  then have "fst (POST now store_insert req w) =
     \<lparr>http_status = 200, body_success = True,
      body_message = Some (js ''Formulario enviado correctamente''), body_error = None\<rparr> \<and>
   console (snd (POST now store_insert req w)) = console w \<and>
   inserted (snd (POST now store_insert req w)) = inserted w @ [r]"
    using POST_store_ok [of now req w fd r store_insert] by blast
  then show "fst (POST now store_insert req w) =
          \<lparr>http_status = 200, body_success = True,
           body_message = Some (js ''Formulario enviado correctamente''), body_error = None\<rparr>"
    and "console (snd (POST now store_insert req w)) = console w"
    by simp_all
next
  show "(\<exists>r. parseSubmission fd = Inr r) \<longleftrightarrow>
    (\<forall>(k, opts)\<in>set field_order. \<not> isl (parseField fd k opts)) \<and> \<not> isl (parseServices fd)"
    by (rule parseSubmission_Inr_iff)
qed

theorem POST_store_outcome_witness:
  "fst (POST 0 (\<lambda>r. Resolved (Some (js ''duplicate key value violates unique constraint'')))
      \<lparr>req_headers = Map.empty, req_formData = Some example_form\<rparr>
      \<lparr>rateLimitStore = Map.empty, inserted = [], console = []\<rparr>) =
     \<lparr>http_status = 500, body_success = False, body_message = None,
      body_error = Some internal_error_message\<rparr> \<and>
   fst (POST 0 (\<lambda>r. Resolved None)
      \<lparr>req_headers = Map.empty, req_formData = Some example_form\<rparr>
      \<lparr>rateLimitStore = Map.empty, inserted = [], console = ([] :: jstring log_entry list)\<rparr>) =
     \<lparr>http_status = 200, body_success = True,
      body_message = Some (js ''Formulario enviado correctamente''), body_error = None\<rparr>"
proof -
  let ?req = "\<lparr>req_headers = Map.empty, req_formData = Some example_form\<rparr>"
  let ?w = "\<lparr>rateLimitStore = Map.empty, inserted = [], console = ([] :: jstring log_entry list)\<rparr>"
  have "\<not> isl (parseSubmission example_form)"
    by code_simp
  then obtain r where r: "parseSubmission example_form = Inr r"
    by (cases "parseSubmission example_form") auto
  have adm: "fst (enforceRateLimit 0 (getClientId (req_headers ?req)) (rateLimitStore ?w)) = Inr ()"
    by (simp add: enforceRateLimit_def)
  have fdq: "req_formData ?req = Some example_form"
    by simp
  let ?d = "js ''duplicate key value violates unique constraint''"
  note failing = POST_store_outcome [where now = 0 and req = ?req and w = ?w and fd = example_form
      and r = r and d = ?d and store_insert = "\<lambda>r. Resolved (Some ?d)", THEN conjunct1, THEN mp]
  note passing = POST_store_outcome [where now = 0 and req = ?req and w = ?w and fd = example_form
      and r = r and store_insert = "\<lambda>r. Resolved None :: jstring insert_outcome",
      THEN conjunct2, THEN conjunct2, THEN conjunct1, THEN mp]
  have "fst (POST 0 (\<lambda>r. Resolved (Some ?d)) ?req ?w) =
     \<lparr>http_status = 500, body_success = False, body_message = None,
      body_error = Some internal_error_message\<rparr>"
    using adm fdq r by (intro failing [THEN conjunct1] conjI refl)
  moreover have "fst (POST 0 (\<lambda>r. Resolved None) ?req ?w) =
     \<lparr>http_status = 200, body_success = True,
      body_message = Some (js ''Formulario enviado correctamente''), body_error = None\<rparr>"
    using adm fdq r by (intro passing [THEN conjunct1] conjI refl)
  ultimately show ?thesis
    by (rule conjI)
qed

end
